theory Spec2Isabelle
  imports Main "HOL-Library.Word"
begin

unbundle bit_operations_syntax

section \<open>Constants\<close>

text \<open>
  The error numbers of \<^verbatim>\<open>errno.h\<close> that \<^verbatim>\<open>shm_lock.c\<close> names or that the
  mutex primitives answer, with their Linux values.
\<close>

definition EPERM :: int where "EPERM = 1"
definition ENOENT :: int where "ENOENT = 2"
definition EBADF :: int where "EBADF = 9"
definition EAGAIN :: int where "EAGAIN = 11"
definition EFAULT :: int where "EFAULT = 14"
definition EBUSY :: int where "EBUSY = 16"
definition EEXIST :: int where "EEXIST = 17"
definition EINVAL :: int where "EINVAL = 22"
definition ENOSPC :: int where "ENOSPC = 28"
definition ERANGE :: int where "ERANGE = 34"
definition EOWNERDEAD :: int where "EOWNERDEAD = 130"
definition ENOTRECOVERABLE :: int where "ENOTRECOVERABLE = 131"

lemmas errno_defs =
  EPERM_def ENOENT_def EBADF_def EAGAIN_def EFAULT_def EBUSY_def EEXIST_def
  EINVAL_def ENOSPC_def ERANGE_def EOWNERDEAD_def ENOTRECOVERABLE_def

text \<open>\<^verbatim>\<open>shm_lock.h\<close>: \<^verbatim>\<open>#define MAGIC 0x87D1\<close>, \<^verbatim>\<open>typedef uint32_t bitmap_t\<close>,
  \<^verbatim>\<open>#define BITMAP_SIZE (sizeof(bitmap_t) * 8)\<close>.\<close>

definition MAGIC :: "16 word" where "MAGIC = 0x87D1"

type_synonym bitmap_t = "32 word"

definition BITMAP_SIZE :: nat where "BITMAP_SIZE = 32"

text \<open>A C pointer argument is either \<^verbatim>\<open>NULL\<close> or points to a value.\<close>

datatype 'a ptr = NULL | Ptr 'a

section \<open>The mutex primitives\<close>

text \<open>
  \<^verbatim>\<open>pthread_mutex_t\<close> belongs to the C library. Its model here is the robust, normal
  (non-recursive), process-shared mutex that \<^verbatim>\<open>setup_lock_shm\<close> configures, as POSIX
  describes it, seen by one caller at a time:
  \<^item> \<open>Unlocked\<close>; \<open>Locked t\<close>, held by the live thread \<open>t\<close>;
  \<^item> \<open>OwnerDead\<close>, the holder terminated without unlocking; the next acquisition
    answers \<^verbatim>\<open>EOWNERDEAD\<close> and holds the mutex in state \<open>Inconsistent t\<close> until
    \<^verbatim>\<open>pthread_mutex_consistent\<close> marks it consistent;
  \<^item> \<open>NotRecoverable\<close>, unlocked while inconsistent: unusable from then on.

  Two fields stand for what the environment may do to a call:
  \<open>eagain_pending\<close> counts the coming calls that answer the transient \<^verbatim>\<open>EAGAIN\<close>,
  and \<open>consistent_fails\<close> says that \<^verbatim>\<open>pthread_mutex_consistent\<close> will refuse
  (the mutex is invalid, or another recoverer got there first, as the comment in
  \<^verbatim>\<open>take_mutex\<close> puts it).

  A blocking call on a mutex held by a live thread does not return: the result
  \<open>None\<close>. A normal mutex blocks its own holder too.
\<close>

type_synonym tid = nat

datatype mutex_state = Unlocked | Locked tid | OwnerDead | Inconsistent tid | NotRecoverable

record pthread_mutex_t =
  mstate :: mutex_state
  eagain_pending :: nat
  consistent_fails :: bool

definition pthread_mutex_lock :: "tid \<Rightarrow> pthread_mutex_t \<Rightarrow> (int \<times> pthread_mutex_t) option" where
  "pthread_mutex_lock self mutex =
     (if 0 < eagain_pending mutex
      then Some (EAGAIN, mutex\<lparr>eagain_pending := eagain_pending mutex - 1\<rparr>)
      else case mstate mutex of
             Unlocked \<Rightarrow> Some (0, mutex\<lparr>mstate := Locked self\<rparr>)
           | Locked t \<Rightarrow> None
           | OwnerDead \<Rightarrow> Some (EOWNERDEAD, mutex\<lparr>mstate := Inconsistent self\<rparr>)
           | Inconsistent t \<Rightarrow> None
           | NotRecoverable \<Rightarrow> Some (ENOTRECOVERABLE, mutex))"

definition pthread_mutex_trylock :: "tid \<Rightarrow> pthread_mutex_t \<Rightarrow> int \<times> pthread_mutex_t" where
  "pthread_mutex_trylock self mutex =
     (if 0 < eagain_pending mutex
      then (EAGAIN, mutex\<lparr>eagain_pending := eagain_pending mutex - 1\<rparr>)
      else case mstate mutex of
             Unlocked \<Rightarrow> (0, mutex\<lparr>mstate := Locked self\<rparr>)
           | Locked t \<Rightarrow> (EBUSY, mutex)
           | OwnerDead \<Rightarrow> (EOWNERDEAD, mutex\<lparr>mstate := Inconsistent self\<rparr>)
           | Inconsistent t \<Rightarrow> (EBUSY, mutex)
           | NotRecoverable \<Rightarrow> (ENOTRECOVERABLE, mutex))"

definition pthread_mutex_consistent :: "tid \<Rightarrow> pthread_mutex_t \<Rightarrow> int \<times> pthread_mutex_t" where
  "pthread_mutex_consistent self mutex =
     (if consistent_fails mutex then (EINVAL, mutex)
      else case mstate mutex of
             Inconsistent t \<Rightarrow>
               if t = self then (0, mutex\<lparr>mstate := Locked self\<rparr>) else (EINVAL, mutex)
           | _ \<Rightarrow> (EINVAL, mutex))"

definition pthread_mutex_unlock :: "tid \<Rightarrow> pthread_mutex_t \<Rightarrow> int \<times> pthread_mutex_t" where
  "pthread_mutex_unlock self mutex =
     (if 0 < eagain_pending mutex
      then (EAGAIN, mutex\<lparr>eagain_pending := eagain_pending mutex - 1\<rparr>)
      else case mstate mutex of
             Locked t \<Rightarrow>
               if t = self then (0, mutex\<lparr>mstate := Unlocked\<rparr>) else (EPERM, mutex)
           | Inconsistent t \<Rightarrow>
               if t = self then (0, mutex\<lparr>mstate := NotRecoverable\<rparr>) else (EPERM, mutex)
           | _ \<Rightarrow> (EPERM, mutex))"

text \<open>The holder of a mutex terminates without unlocking it.\<close>

definition holder_terminates :: "pthread_mutex_t \<Rightarrow> pthread_mutex_t" where
  "holder_terminates mutex =
     (case mstate mutex of
        Locked t \<Rightarrow> mutex\<lparr>mstate := OwnerDead\<rparr>
      | Inconsistent t \<Rightarrow> mutex\<lparr>mstate := OwnerDead\<rparr>
      | _ \<Rightarrow> mutex)"

section \<open>\<^verbatim>\<open>take_mutex\<close> and \<^verbatim>\<open>release_mutex\<close>\<close>

text \<open>The three \<^verbatim>\<open>do { ret_code = ...; } while(ret_code == EAGAIN);\<close> loops.\<close>

function take_mutex_lock_loop :: "tid \<Rightarrow> pthread_mutex_t \<Rightarrow> (int \<times> pthread_mutex_t) option" where
  "take_mutex_lock_loop self mutex =
     (case pthread_mutex_lock self mutex of
        None \<Rightarrow> None
      | Some (ret_code, mutex') \<Rightarrow>
          if ret_code = EAGAIN then take_mutex_lock_loop self mutex'
          else Some (ret_code, mutex'))"
  by pat_completeness auto
termination
  by (relation "measure (\<lambda>(self, mutex). eagain_pending mutex)")
     (auto simp: pthread_mutex_lock_def errno_defs split: if_splits mutex_state.splits)

function take_mutex_trylock_loop :: "tid \<Rightarrow> pthread_mutex_t \<Rightarrow> int \<times> pthread_mutex_t" where
  "take_mutex_trylock_loop self mutex =
     (case pthread_mutex_trylock self mutex of
        (ret_code, mutex') \<Rightarrow>
          if ret_code = EAGAIN then take_mutex_trylock_loop self mutex'
          else (ret_code, mutex'))"
  by pat_completeness auto
termination
  by (relation "measure (\<lambda>(self, mutex). eagain_pending mutex)")
     (auto simp: pthread_mutex_trylock_def errno_defs split: if_splits mutex_state.splits)

function release_mutex_unlock_loop :: "tid \<Rightarrow> pthread_mutex_t \<Rightarrow> int \<times> pthread_mutex_t" where
  "release_mutex_unlock_loop self mutex =
     (case pthread_mutex_unlock self mutex of
        (ret_code, mutex') \<Rightarrow>
          if ret_code = EAGAIN then release_mutex_unlock_loop self mutex'
          else (ret_code, mutex'))"
  by pat_completeness auto
termination
  by (relation "measure (\<lambda>(self, mutex). eagain_pending mutex)")
     (auto simp: pthread_mutex_unlock_def errno_defs split: if_splits mutex_state.splits)

text \<open>
  \<^verbatim>\<open>static int take_mutex(pthread_mutex_t *mutex, bool trylock)\<close>: the return code and
  the mutex as the call leaves it; \<open>None\<close> when the blocking lock does not return.
\<close>

definition take_mutex :: "tid \<Rightarrow> pthread_mutex_t \<Rightarrow> bool \<Rightarrow> (int \<times> pthread_mutex_t) option" where
  "take_mutex self mutex trylock =
     (case (if \<not> trylock then take_mutex_lock_loop self mutex
            else Some (take_mutex_trylock_loop self mutex)) of
        None \<Rightarrow> None
      | Some (ret_code, mutex1) \<Rightarrow>
          if ret_code = EOWNERDEAD then
            (case pthread_mutex_consistent self mutex1 of
               (ret_code2, mutex2) \<Rightarrow>
                 if ret_code2 \<noteq> 0 then Some (ret_code2, mutex2) else Some (0, mutex2))
          else if ret_code \<noteq> 0 then Some (ret_code, mutex1)
          else Some (0, mutex1))"

text \<open>\<^verbatim>\<open>static int release_mutex(pthread_mutex_t *mutex)\<close>.\<close>

definition release_mutex :: "tid \<Rightarrow> pthread_mutex_t \<Rightarrow> int \<times> pthread_mutex_t" where
  "release_mutex self mutex =
     (case release_mutex_unlock_loop self mutex of
        (ret_code, mutex') \<Rightarrow> if ret_code \<noteq> 0 then (ret_code, mutex') else (0, mutex'))"

declare take_mutex_lock_loop.simps [simp del]
declare take_mutex_trylock_loop.simps [simp del]
declare release_mutex_unlock_loop.simps [simp del]

section \<open>The segment\<close>

text \<open>
  \<^verbatim>\<open>lock_group_t\<close> and \<^verbatim>\<open>shm_struct_t\<close> of \<^verbatim>\<open>shm_lock.h\<close>. A C array is the
  function from its indices to its elements: \<^verbatim>\<open>locks[]\<close> of the segment is a flexible
  array member with no length of its own, and the code reads \<^verbatim>\<open>num_bitmaps\<close> for it.
\<close>

record lock_group_t =
  bitmap :: bitmap_t
  locks :: "nat \<Rightarrow> pthread_mutex_t"

record shm_struct_t =
  magic :: "16 word"
  unused :: "16 word"
  segment_lock :: pthread_mutex_t
  num_bitmaps :: "32 word"
  num_locks :: "32 word"
  locks :: "nat \<Rightarrow> lock_group_t"

text \<open>\<^verbatim>\<open>&(shm->locks[bitmap_index].locks[index_in_bitmap])\<close>, read and written back.\<close>

definition slot_mutex :: "shm_struct_t \<Rightarrow> nat \<Rightarrow> nat \<Rightarrow> pthread_mutex_t" where
  "slot_mutex shm bitmap_index index_in_bitmap =
     lock_group_t.locks (locks shm bitmap_index) index_in_bitmap"

definition store_slot_mutex :: "shm_struct_t \<Rightarrow> nat \<Rightarrow> nat \<Rightarrow> pthread_mutex_t \<Rightarrow> shm_struct_t" where
  "store_slot_mutex shm bitmap_index index_in_bitmap mutex =
     shm\<lparr>locks := (locks shm)(bitmap_index :=
       (locks shm bitmap_index)\<lparr>lock_group_t.locks :=
          (lock_group_t.locks (locks shm bitmap_index))(index_in_bitmap := mutex)\<rparr>)\<rparr>"

text \<open>\<^verbatim>\<open>shm->locks[bitmap_index].bitmap = v\<close>.\<close>

definition store_bitmap :: "shm_struct_t \<Rightarrow> nat \<Rightarrow> bitmap_t \<Rightarrow> shm_struct_t" where
  "store_bitmap shm bitmap_index v =
     shm\<lparr>locks := (locks shm)(bitmap_index := (locks shm bitmap_index)\<lparr>bitmap := v\<rparr>)\<rparr>"

section \<open>Per-slot lock operations\<close>

text \<open>
  Every operation takes the calling thread, the segment pointer and its arguments, and
  gives the return value with the segment as the call leaves it; \<open>None\<close> when the call
  blocks.
\<close>

definition lock_semaphore :: "tid \<Rightarrow> shm_struct_t ptr \<Rightarrow> 32 word \<Rightarrow> (int \<times> shm_struct_t ptr) option" where
  "lock_semaphore self shm sem_index =
     (case shm of
        NULL \<Rightarrow> Some (-1 * EINVAL, NULL)
      | Ptr s \<Rightarrow>
          if sem_index \<ge> num_locks s then Some (-1 * EINVAL, Ptr s)
          else
            let bitmap_index = unat sem_index div BITMAP_SIZE;
                index_in_bitmap = unat sem_index mod BITMAP_SIZE
            in case take_mutex self (slot_mutex s bitmap_index index_in_bitmap) False of
                 None \<Rightarrow> None
               | Some (ret_code, mutex') \<Rightarrow>
                   Some (-1 * ret_code,
                         Ptr (store_slot_mutex s bitmap_index index_in_bitmap mutex')))"

definition unlock_semaphore :: "tid \<Rightarrow> shm_struct_t ptr \<Rightarrow> 32 word \<Rightarrow> int \<times> shm_struct_t ptr" where
  "unlock_semaphore self shm sem_index =
     (case shm of
        NULL \<Rightarrow> (-1 * EINVAL, NULL)
      | Ptr s \<Rightarrow>
          if sem_index \<ge> num_locks s then (-1 * EINVAL, Ptr s)
          else
            let bitmap_index = unat sem_index div BITMAP_SIZE;
                index_in_bitmap = unat sem_index mod BITMAP_SIZE
            in case release_mutex self (slot_mutex s bitmap_index index_in_bitmap) of
                 (ret_code, mutex') \<Rightarrow>
                   (-1 * ret_code,
                    Ptr (store_slot_mutex s bitmap_index index_in_bitmap mutex')))"

definition try_lock :: "tid \<Rightarrow> shm_struct_t ptr \<Rightarrow> 32 word \<Rightarrow> (int \<times> shm_struct_t ptr) option" where
  "try_lock self shm sem_index =
     (case shm of
        NULL \<Rightarrow> Some (-1 * EINVAL, NULL)
      | Ptr s \<Rightarrow>
          if sem_index \<ge> num_locks s then Some (-1 * EINVAL, Ptr s)
          else
            let bitmap_index = unat sem_index div BITMAP_SIZE;
                index_in_bitmap = unat sem_index mod BITMAP_SIZE
            in case take_mutex self (slot_mutex s bitmap_index index_in_bitmap) True of
                 None \<Rightarrow> None
               | Some (ret_code, mutex1) \<Rightarrow>
                   let s1 = store_slot_mutex s bitmap_index index_in_bitmap mutex1 in
                   if ret_code = EBUSY then Some (0, Ptr s1)
                   else if ret_code \<noteq> 0 then Some (-1 * ret_code, Ptr s1)
                   else
                     (case release_mutex self mutex1 of
                        (ret_code2, mutex2) \<Rightarrow>
                          let s2 = store_slot_mutex s bitmap_index index_in_bitmap mutex2 in
                          if ret_code2 \<noteq> 0 then Some (-1 * ret_code2, Ptr s2)
                          else Some (1, Ptr s2)))"

section \<open>Allocation bitmap operations\<close>

text \<open>
  The inner loop of \<^verbatim>\<open>allocate_semaphore\<close>,
  \<^verbatim>\<open>while (test_map != 0) { if ((test_map & bitmap) == 0) ...; test_map = test_map << 1; num_within_bitmap++; }\<close>:
  the mask and the position of the first clear bit it meets, or \<open>None\<close> when
  \<^verbatim>\<open>test_map\<close> is shifted out to 0 and the loop falls through.
\<close>

function allocate_semaphore_bits :: "bitmap_t \<Rightarrow> bitmap_t \<Rightarrow> nat \<Rightarrow> (bitmap_t \<times> nat) option" where
  "allocate_semaphore_bits bm test_map num_within_bitmap =
     (if test_map \<noteq> 0 then
        (if test_map AND bm = 0 then Some (test_map, num_within_bitmap)
         else allocate_semaphore_bits bm (push_bit 1 test_map) (num_within_bitmap + 1))
      else None)"
  by pat_completeness auto
termination
proof (relation "measure (\<lambda>(bm, test_map, n). LEAST k. push_bit k test_map = 0)")
  show "wf (measure (\<lambda>(bm, test_map, n). LEAST k. push_bit k test_map = 0))"
    by simp
next
  fix bm test_map :: bitmap_t and num_within_bitmap :: nat
  assume "test_map \<noteq> 0"
  then have "(LEAST k. push_bit k test_map = 0) = Suc (LEAST k. push_bit (Suc k) test_map = 0)"
    using Least_Suc [of "\<lambda>k. push_bit k test_map = 0" 32] by simp
  then show "((bm, push_bit 1 test_map, num_within_bitmap + 1), bm, test_map, num_within_bitmap)
      \<in> measure (\<lambda>(bm, test_map, n). LEAST k. push_bit k test_map = 0)"
    by (simp add: push_bit_push_bit)
qed

text \<open>
  The outer loop, \<^verbatim>\<open>for (i = 0; i < shm->num_bitmaps; i++)\<close>: the semaphore number
  and the segment with the bit set, or \<open>None\<close> when the loop ends with nothing
  allocated. (\<^verbatim>\<open>i\<close> is a C \<^verbatim>\<open>int\<close>; \<^verbatim>\<open>setup_lock_shm\<close> stores at most \<open>2^27\<close>
  in \<^verbatim>\<open>num_bitmaps\<close>.)
\<close>

function allocate_semaphore_groups :: "shm_struct_t \<Rightarrow> nat \<Rightarrow> (int \<times> shm_struct_t) option" where
  "allocate_semaphore_groups shm i =
     (if i < unat (num_bitmaps shm) then
        (if bitmap (locks shm i) \<noteq> 0xFFFFFFFF then
           (case allocate_semaphore_bits (bitmap (locks shm i)) 0x1 0 of
              Some (test_map, num_within_bitmap) \<Rightarrow>
                Some (int (BITMAP_SIZE * i + num_within_bitmap),
                      store_bitmap shm i (bitmap (locks shm i) OR test_map))
            | None \<Rightarrow> allocate_semaphore_groups shm (i + 1))
         else allocate_semaphore_groups shm (i + 1))
      else None)"
  by pat_completeness auto
termination
  by (relation "measure (\<lambda>(shm, i). unat (num_bitmaps shm) - i)") auto

text \<open>\<^verbatim>\<open>int64_t allocate_semaphore(shm_struct_t *shm)\<close>.\<close>

definition allocate_semaphore :: "tid \<Rightarrow> shm_struct_t ptr \<Rightarrow> (int \<times> shm_struct_t ptr) option" where
  "allocate_semaphore self shm =
     (case shm of
        NULL \<Rightarrow> Some (-1 * EINVAL, NULL)
      | Ptr s \<Rightarrow>
          (case take_mutex self (segment_lock s) False of
             None \<Rightarrow> None
           | Some (ret_code, mutex1) \<Rightarrow>
               let s1 = s\<lparr>segment_lock := mutex1\<rparr> in
               if ret_code \<noteq> 0 then Some (-1 * ret_code, Ptr s1)
               else
                 (case allocate_semaphore_groups s1 0 of
                    Some (sem_number, s2) \<Rightarrow>
                      (case release_mutex self (segment_lock s2) of
                         (ret_code2, mutex2) \<Rightarrow>
                           if ret_code2 \<noteq> 0
                           then Some (-1 * ret_code2, Ptr (s2\<lparr>segment_lock := mutex2\<rparr>))
                           else Some (sem_number, Ptr (s2\<lparr>segment_lock := mutex2\<rparr>)))
                  | None \<Rightarrow>
                      (case release_mutex self (segment_lock s1) of
                         (ret_code2, mutex2) \<Rightarrow>
                           if ret_code2 \<noteq> 0
                           then Some (-1 * ret_code2, Ptr (s1\<lparr>segment_lock := mutex2\<rparr>))
                           else Some (-1 * ENOSPC, Ptr (s1\<lparr>segment_lock := mutex2\<rparr>))))))"

text \<open>\<^verbatim>\<open>int32_t allocate_given_semaphore(shm_struct_t *shm, uint32_t sem_index)\<close>.\<close>

definition allocate_given_semaphore :: "tid \<Rightarrow> shm_struct_t ptr \<Rightarrow> 32 word \<Rightarrow> (int \<times> shm_struct_t ptr) option" where
  "allocate_given_semaphore self shm sem_index =
     (case shm of
        NULL \<Rightarrow> Some (-1 * EINVAL, NULL)
      | Ptr s \<Rightarrow>
          if sem_index \<ge> num_locks s then Some (-1 * EINVAL, Ptr s)
          else
            let bitmap_index = unat sem_index div BITMAP_SIZE;
                index_in_bitmap = unat sem_index mod BITMAP_SIZE
            in if bitmap_index \<ge> unat (num_bitmaps s) then Some (-1 * EFAULT, Ptr s)
               else
                 let test_map = (push_bit index_in_bitmap 0x1 :: bitmap_t) in
                 (case take_mutex self (segment_lock s) False of
                    None \<Rightarrow> None
                  | Some (ret_code, mutex1) \<Rightarrow>
                      let s1 = s\<lparr>segment_lock := mutex1\<rparr> in
                      if ret_code \<noteq> 0 then Some (-1 * ret_code, Ptr s1)
                      else if test_map AND bitmap (locks s1 bitmap_index) \<noteq> 0 then
                        (case release_mutex self (segment_lock s1) of
                           (ret_code2, mutex2) \<Rightarrow>
                             if ret_code2 \<noteq> 0
                             then Some (-1 * ret_code2, Ptr (s1\<lparr>segment_lock := mutex2\<rparr>))
                             else Some (-1 * EEXIST, Ptr (s1\<lparr>segment_lock := mutex2\<rparr>)))
                      else
                        let s2 = store_bitmap s1 bitmap_index
                                   (bitmap (locks s1 bitmap_index) OR test_map) in
                        (case release_mutex self (segment_lock s2) of
                           (ret_code2, mutex2) \<Rightarrow>
                             if ret_code2 \<noteq> 0
                             then Some (-1 * ret_code2, Ptr (s2\<lparr>segment_lock := mutex2\<rparr>))
                             else Some (0, Ptr (s2\<lparr>segment_lock := mutex2\<rparr>)))))"

text \<open>\<^verbatim>\<open>int32_t deallocate_semaphore(shm_struct_t *shm, uint32_t sem_index)\<close>.\<close>

definition deallocate_semaphore :: "tid \<Rightarrow> shm_struct_t ptr \<Rightarrow> 32 word \<Rightarrow> (int \<times> shm_struct_t ptr) option" where
  "deallocate_semaphore self shm sem_index =
     (case shm of
        NULL \<Rightarrow> Some (-1 * EINVAL, NULL)
      | Ptr s \<Rightarrow>
          if sem_index \<ge> num_locks s then Some (-1 * EINVAL, Ptr s)
          else
            let bitmap_index = unat sem_index div BITMAP_SIZE;
                index_in_bitmap = unat sem_index mod BITMAP_SIZE
            in if bitmap_index \<ge> unat (num_bitmaps s) then Some (-1 * EFAULT, Ptr s)
               else
                 let test_map = (push_bit index_in_bitmap 0x1 :: bitmap_t) in
                 (case take_mutex self (segment_lock s) False of
                    None \<Rightarrow> None
                  | Some (ret_code, mutex1) \<Rightarrow>
                      let s1 = s\<lparr>segment_lock := mutex1\<rparr> in
                      if ret_code \<noteq> 0 then Some (-1 * ret_code, Ptr s1)
                      else if test_map AND bitmap (locks s1 bitmap_index) = 0 then
                        (case release_mutex self (segment_lock s1) of
                           (ret_code2, mutex2) \<Rightarrow>
                             if ret_code2 \<noteq> 0
                             then Some (-1 * ret_code2, Ptr (s1\<lparr>segment_lock := mutex2\<rparr>))
                             else Some (-1 * ENOENT, Ptr (s1\<lparr>segment_lock := mutex2\<rparr>)))
                      else
                        let test_map' = NOT test_map;
                            s2 = store_bitmap s1 bitmap_index
                                   (bitmap (locks s1 bitmap_index) AND test_map') in
                        (case release_mutex self (segment_lock s2) of
                           (ret_code2, mutex2) \<Rightarrow>
                             if ret_code2 \<noteq> 0
                             then Some (-1 * ret_code2, Ptr (s2\<lparr>segment_lock := mutex2\<rparr>))
                             else Some (0, Ptr (s2\<lparr>segment_lock := mutex2\<rparr>)))))"

text \<open>
  \<^verbatim>\<open>int64_t available_locks(shm_struct_t *shm)\<close>. First Kernighan's loop,
  \<^verbatim>\<open>while (test_map) { test_map = test_map & (test_map - 1); count++; }\<close>, then the
  loop over the groups, then the function.
\<close>

function available_locks_count :: "bitmap_t \<Rightarrow> int \<Rightarrow> int" where
  "available_locks_count test_map count =
     (if test_map \<noteq> 0 then available_locks_count (test_map AND (test_map - 1)) (count + 1)
      else count)"
  by pat_completeness auto
termination
proof (relation "measure (\<lambda>(test_map, count). unat test_map)")
  show "wf (measure (\<lambda>(test_map, count). unat test_map))" by simp
next
  fix test_map :: bitmap_t and count :: int
  assume nz: "test_map \<noteq> 0"
  have "test_map AND (test_map - 1) \<le> test_map - 1"
    by (rule word_and_le1)
  also from nz have "test_map - 1 < test_map"
    by (simp add: word_less_nat_alt unat_minus_one unat_gt_0)
  finally show "((test_map AND (test_map - 1), count + 1), test_map, count)
      \<in> measure (\<lambda>(test_map, count). unat test_map)"
    by (simp add: word_less_nat_alt)
qed

function available_locks_groups :: "shm_struct_t \<Rightarrow> nat \<Rightarrow> int \<Rightarrow> int" where
  "available_locks_groups shm i free_locks =
     (if i < unat (num_bitmaps shm) then
        (if bitmap (locks shm i) = 0
         then available_locks_groups shm (i + 1) (free_locks + int BITMAP_SIZE)
         else available_locks_groups shm (i + 1)
                (free_locks + (int BITMAP_SIZE - available_locks_count (bitmap (locks shm i)) 0)))
      else free_locks)"
  by pat_completeness auto
termination
  by (relation "measure (\<lambda>(shm, i, free_locks). unat (num_bitmaps shm) - i)") auto

definition available_locks :: "tid \<Rightarrow> shm_struct_t ptr \<Rightarrow> (int \<times> shm_struct_t ptr) option" where
  "available_locks self shm =
     (case shm of
        NULL \<Rightarrow> Some (-1 * EINVAL, NULL)
      | Ptr s \<Rightarrow>
          (case take_mutex self (segment_lock s) False of
             None \<Rightarrow> None
           | Some (ret_code, mutex1) \<Rightarrow>
               let s1 = s\<lparr>segment_lock := mutex1\<rparr> in
               if ret_code \<noteq> 0 then Some (-1 * ret_code, Ptr s1)
               else
                 let free_locks = available_locks_groups s1 0 0 in
                 (case release_mutex self (segment_lock s1) of
                    (ret_code2, mutex2) \<Rightarrow>
                      if ret_code2 \<noteq> 0
                      then Some (-1 * ret_code2, Ptr (s1\<lparr>segment_lock := mutex2\<rparr>))
                      else Some (free_locks, Ptr (s1\<lparr>segment_lock := mutex2\<rparr>)))))"

declare allocate_semaphore_bits.simps [simp del]
declare allocate_semaphore_groups.simps [simp del]
declare available_locks_count.simps [simp del]
declare available_locks_groups.simps [simp del]

section \<open>The operating system\<close>

text \<open>
  \<^verbatim>\<open>shm_open\<close>, \<^verbatim>\<open>ftruncate\<close>, \<^verbatim>\<open>mmap\<close>, \<^verbatim>\<open>munmap\<close>, \<^verbatim>\<open>close\<close>, \<^verbatim>\<open>shm_unlink\<close> and
  the \<^verbatim>\<open>pthread_mutexattr\<close> calls belong to the system. What the code can see of it:
  the shared-memory namespace (a name's object, read as the segment structure the code
  maps over it), the descriptors and mappings the process holds, and the answer of every
  call that can fail (0 for success, an error number otherwise). \<open>shm_name_errno\<close> is
  the system's own judgement of a name; \<open>mutex_init_ret k\<close> answers the \<open>k\<close>-th
  \<^verbatim>\<open>pthread_mutex_init\<close> of a \<^verbatim>\<open>setup_lock_shm\<close> call (the allocation lock first).
  Sizes in bytes are not modelled.
\<close>

record os_t =
  shm_objects :: "string \<Rightarrow> shm_struct_t option"
  open_fds :: nat
  mappings :: nat
  shm_name_errno :: "string \<Rightarrow> int"
  ftruncate_errno :: int
  mmap_errno :: int
  mutexattr_init_ret :: int
  mutexattr_settype_ret :: int
  mutexattr_setpshared_ret :: int
  mutexattr_setrobust_ret :: int
  mutex_init_ret :: "nat \<Rightarrow> int"

text \<open>What \<^verbatim>\<open>pthread_mutex_init\<close> leaves, and the zero-filled memory of a new object.\<close>

definition pthread_mutex_init :: pthread_mutex_t where
  "pthread_mutex_init = \<lparr>mstate = Unlocked, eagain_pending = 0, consistent_fails = False\<rparr>"

definition zero_shm :: shm_struct_t where
  "zero_shm =
     \<lparr>magic = 0, unused = 0, segment_lock = pthread_mutex_init, num_bitmaps = 0, num_locks = 0,
      locks = (\<lambda>i. \<lparr>bitmap = 0, locks = (\<lambda>j. pthread_mutex_init)\<rparr>)\<rparr>"

text \<open>
  \<^verbatim>\<open>shm_open(path, O_RDWR | O_CREAT | O_EXCL, 0600)\<close> when \<open>creat_excl\<close>, else
  \<^verbatim>\<open>shm_open(path, O_RDWR, 0600)\<close>: the error number, or the object behind the new
  descriptor.
\<close>

definition shm_open :: "os_t \<Rightarrow> string \<Rightarrow> bool \<Rightarrow> (int + shm_struct_t) \<times> os_t" where
  "shm_open os path creat_excl =
     (if shm_name_errno os path \<noteq> 0 then (Inl (shm_name_errno os path), os)
      else case shm_objects os path of
             Some obj \<Rightarrow>
               if creat_excl then (Inl EEXIST, os)
               else (Inr obj, os\<lparr>open_fds := open_fds os + 1\<rparr>)
           | None \<Rightarrow>
               if creat_excl
               then (Inr zero_shm,
                     os\<lparr>shm_objects := (shm_objects os)(path := Some zero_shm),
                        open_fds := open_fds os + 1\<rparr>)
               else (Inl ENOENT, os))"

definition munmap :: "os_t \<Rightarrow> os_t" where
  "munmap os = os\<lparr>mappings := mappings os - 1\<rparr>"

definition close_fd :: "os_t \<Rightarrow> os_t" where
  "close_fd os = os\<lparr>open_fds := open_fds os - 1\<rparr>"

definition shm_unlink :: "os_t \<Rightarrow> string \<Rightarrow> os_t" where
  "shm_unlink os path = os\<lparr>shm_objects := (shm_objects os)(path := None)\<rparr>"

text \<open>The labels \<^verbatim>\<open>CLEANUP_UNLINK\<close> and \<^verbatim>\<open>CLEANUP_UNMAP\<close> of \<^verbatim>\<open>setup_lock_shm\<close>
  (\<^verbatim>\<open>CLEANUP_FREEATTR\<close> destroys the attribute and falls through to the second).\<close>

definition cleanup_unlink :: "os_t \<Rightarrow> string \<Rightarrow> os_t" where
  "cleanup_unlink os path = shm_unlink (close_fd os) path"

definition cleanup_unmap :: "os_t \<Rightarrow> string \<Rightarrow> os_t" where
  "cleanup_unmap os path = cleanup_unlink (munmap os) path"

section \<open>Segment lifecycle\<close>

text \<open>
  The number of bitmaps for the \<^verbatim>\<open>num_locks\<close> asked for, as \<^verbatim>\<open>setup_lock_shm\<close> and
  \<^verbatim>\<open>open_lock_shm\<close> both compute it. (The parameter is \<open>n_locks\<close> here: \<open>num_locks\<close>
  names the field of the segment.)
\<close>

definition bitmaps_required :: "32 word \<Rightarrow> 32 word" where
  "bitmaps_required n_locks =
     (let num_bitmaps = n_locks div of_nat BITMAP_SIZE in
      if n_locks mod of_nat BITMAP_SIZE \<noteq> 0 then num_bitmaps + 1 else num_bitmaps)"

text \<open>
  \<^verbatim>\<open>num_bitmaps * BITMAP_SIZE\<close>: \<^verbatim>\<open>BITMAP_SIZE\<close> is a \<^verbatim>\<open>size_t\<close>, so the product is
  taken in \<^verbatim>\<open>size_t\<close> (64 bits here).
\<close>

definition bitmaps_times_size :: "32 word \<Rightarrow> 64 word" where
  "bitmaps_times_size n_bitmaps = ucast n_bitmaps * of_nat BITMAP_SIZE"

text \<open>The loops of \<^verbatim>\<open>setup_lock_shm\<close> that initialise the groups:
  \<^verbatim>\<open>for (j = 0; j < BITMAP_SIZE; j++)\<close> inside \<^verbatim>\<open>for (i = 0; i < num_bitmaps; i++)\<close>;
  \<open>Inl\<close> is the return code of the \<^verbatim>\<open>pthread_mutex_init\<close> that failed.\<close>

function setup_init_mutexes :: "os_t \<Rightarrow> nat \<Rightarrow> nat \<Rightarrow> lock_group_t \<Rightarrow> int + lock_group_t" where
  "setup_init_mutexes os i j g =
     (if j < BITMAP_SIZE then
        (let ret_code = mutex_init_ret os (1 + i * BITMAP_SIZE + j) in
         if ret_code \<noteq> 0 then Inl ret_code
         else setup_init_mutexes os i (j + 1)
                (g\<lparr>lock_group_t.locks := (lock_group_t.locks g)(j := pthread_mutex_init)\<rparr>))
      else Inr g)"
  by pat_completeness auto
termination
  by (relation "measure (\<lambda>(os, i, j, g). BITMAP_SIZE - j)") auto

function setup_init_groups :: "os_t \<Rightarrow> nat \<Rightarrow> shm_struct_t \<Rightarrow> nat \<Rightarrow> int + shm_struct_t" where
  "setup_init_groups os n_bitmaps shm i =
     (if i < n_bitmaps then
        (case setup_init_mutexes os i 0 ((locks shm i)\<lparr>bitmap := 0\<rparr>) of
           Inl ret_code \<Rightarrow> Inl ret_code
         | Inr g \<Rightarrow> setup_init_groups os n_bitmaps (shm\<lparr>locks := (locks shm)(i := g)\<rparr>) (i + 1))
      else Inr shm)"
  by pat_completeness auto
termination
  by (relation "measure (\<lambda>(os, n_bitmaps, shm, i). n_bitmaps - i)") auto

declare setup_init_mutexes.simps [simp del]
declare setup_init_groups.simps [simp del]

text \<open>
  \<^verbatim>\<open>shm_struct_t *setup_lock_shm(char *path, uint32_t num_locks, int *error_code)\<close>:
  the pointer returned, \<^verbatim>\<open>*error_code\<close> as the call leaves it, and the system.
\<close>

definition setup_lock_shm ::
  "os_t \<Rightarrow> string ptr \<Rightarrow> 32 word \<Rightarrow> int ptr \<Rightarrow> shm_struct_t ptr \<times> int ptr \<times> os_t" where
  "setup_lock_shm os path n_locks error_code =
     (case error_code of
        NULL \<Rightarrow> (NULL, NULL, os)
      | Ptr ec \<Rightarrow>
          if n_locks = 0 then (NULL, Ptr (-1 * EINVAL), os)
          else case path of
            NULL \<Rightarrow> (NULL, Ptr (-1 * EINVAL), os)
          | Ptr name \<Rightarrow>
              let num_bitmaps = bitmaps_required n_locks in
              (case shm_open os name True of
                 (Inl errno, os1) \<Rightarrow> (NULL, Ptr (-1 * errno), os1)
               | (Inr obj, os1) \<Rightarrow>
                   if ftruncate_errno os1 \<noteq> 0
                   then (NULL, Ptr (-1 * ftruncate_errno os1), cleanup_unlink os1 name)
                   else if mmap_errno os1 \<noteq> 0
                   then (NULL, Ptr (-1 * mmap_errno os1), cleanup_unlink os1 name)
                   else
                     let os2 = os1\<lparr>mappings := mappings os1 + 1\<rparr>;
                         shm = obj\<lparr>magic := MAGIC, unused := 0,
                                   num_locks := ucast (bitmaps_times_size num_bitmaps),
                                   num_bitmaps := num_bitmaps\<rparr>
                     in
                     if mutexattr_init_ret os2 \<noteq> 0
                     then (NULL, Ptr (-1 * mutexattr_init_ret os2), cleanup_unmap os2 name)
                     else if mutexattr_settype_ret os2 \<noteq> 0
                     then (NULL, Ptr (-1 * mutexattr_settype_ret os2), cleanup_unmap os2 name)
                     else if mutexattr_setpshared_ret os2 \<noteq> 0
                     then (NULL, Ptr (-1 * mutexattr_setpshared_ret os2), cleanup_unmap os2 name)
                     else if mutexattr_setrobust_ret os2 \<noteq> 0
                     then (NULL, Ptr (-1 * mutexattr_setrobust_ret os2), cleanup_unmap os2 name)
                     else if mutex_init_ret os2 0 \<noteq> 0
                     then (NULL, Ptr (-1 * mutex_init_ret os2 0), cleanup_unmap os2 name)
                     else
                       (case setup_init_groups os2 (unat num_bitmaps)
                               (shm\<lparr>segment_lock := pthread_mutex_init\<rparr>) 0 of
                          Inl ret_code \<Rightarrow> (NULL, Ptr (-1 * ret_code), cleanup_unmap os2 name)
                        | Inr shm' \<Rightarrow>
                            (Ptr shm', Ptr ec,
                             close_fd (os2\<lparr>shm_objects := (shm_objects os2)(name := Some shm')\<rparr>)))))"

text \<open>
  \<^verbatim>\<open>shm_struct_t *open_lock_shm(char *path, uint32_t num_locks, int *error_code)\<close>.
\<close>

definition open_lock_shm ::
  "os_t \<Rightarrow> string ptr \<Rightarrow> 32 word \<Rightarrow> int ptr \<Rightarrow> shm_struct_t ptr \<times> int ptr \<times> os_t" where
  "open_lock_shm os path n_locks error_code =
     (case error_code of
        NULL \<Rightarrow> (NULL, NULL, os)
      | Ptr ec \<Rightarrow>
          if n_locks = 0 then (NULL, Ptr (-1 * EINVAL), os)
          else case path of
            NULL \<Rightarrow> (NULL, Ptr (-1 * EINVAL), os)
          | Ptr name \<Rightarrow>
              let num_bitmaps = bitmaps_required n_locks in
              (case shm_open os name False of
                 (Inl errno, os1) \<Rightarrow> (NULL, Ptr (-1 * errno), os1)
               | (Inr shm, os1) \<Rightarrow>
                   if mmap_errno os1 \<noteq> 0
                   then (NULL, Ptr (-1 * mmap_errno os1), close_fd os1)
                   else
                     let os2 = close_fd (os1\<lparr>mappings := mappings os1 + 1\<rparr>) in
                     if magic shm \<noteq> MAGIC
                     then (NULL, Ptr (-1 * EBADF), munmap os2)
                     else if ucast (shm_struct_t.num_locks shm) \<noteq> bitmaps_times_size num_bitmaps
                     then (NULL, Ptr (-1 * ERANGE), munmap os2)
                     else (Ptr shm, Ptr ec, os2)))"

text \<open>\<^verbatim>\<open>int32_t close_lock_shm(shm_struct_t *shm)\<close>; \<open>munmap_errno\<close> is the answer
  of \<^verbatim>\<open>munmap\<close>.\<close>

definition close_lock_shm :: "os_t \<Rightarrow> int \<Rightarrow> shm_struct_t ptr \<Rightarrow> int \<times> os_t" where
  "close_lock_shm os munmap_errno shm =
     (case shm of
        NULL \<Rightarrow> (-1 * EINVAL, os)
      | Ptr s \<Rightarrow> if munmap_errno \<noteq> 0 then (-1 * munmap_errno, os) else (0, munmap os))"

text \<open>\<^verbatim>\<open>int32_t deallocate_all_semaphores(shm_struct_t *shm)\<close> and its loop.\<close>

function deallocate_all_groups :: "shm_struct_t \<Rightarrow> nat \<Rightarrow> shm_struct_t" where
  "deallocate_all_groups shm i =
     (if i < unat (num_bitmaps shm)
      then deallocate_all_groups (store_bitmap shm i 0) (i + 1)
      else shm)"
  by pat_completeness auto
termination
  by (relation "measure (\<lambda>(shm, i). unat (num_bitmaps shm) - i)")
     (auto simp: store_bitmap_def)

declare deallocate_all_groups.simps [simp del]

definition deallocate_all_semaphores :: "tid \<Rightarrow> shm_struct_t ptr \<Rightarrow> (int \<times> shm_struct_t ptr) option" where
  "deallocate_all_semaphores self shm =
     (case shm of
        NULL \<Rightarrow> Some (-1 * EINVAL, NULL)
      | Ptr s \<Rightarrow>
          (case take_mutex self (segment_lock s) False of
             None \<Rightarrow> None
           | Some (ret_code, mutex1) \<Rightarrow>
               let s1 = s\<lparr>segment_lock := mutex1\<rparr> in
               if ret_code \<noteq> 0 then Some (-1 * ret_code, Ptr s1)
               else
                 let s2 = deallocate_all_groups s1 0 in
                 (case release_mutex self (segment_lock s2) of
                    (ret_code2, mutex2) \<Rightarrow>
                      if ret_code2 \<noteq> 0
                      then Some (-1 * ret_code2, Ptr (s2\<lparr>segment_lock := mutex2\<rparr>))
                      else Some (0, Ptr (s2\<lparr>segment_lock := mutex2\<rparr>)))))"

section \<open>A system and a segment to run the operations on\<close>

text \<open>A system with no shared-memory object yet in which every call succeeds, and
  the segment of \<open>n_bitmaps\<close> groups as \<^verbatim>\<open>setup_lock_shm\<close> initialises it.\<close>

definition quiet_os :: os_t where
  "quiet_os =
     \<lparr>shm_objects = (\<lambda>path. None), open_fds = 0, mappings = 0,
      shm_name_errno = (\<lambda>path. 0), ftruncate_errno = 0, mmap_errno = 0,
      mutexattr_init_ret = 0, mutexattr_settype_ret = 0, mutexattr_setpshared_ret = 0,
      mutexattr_setrobust_ret = 0, mutex_init_ret = (\<lambda>k. 0)\<rparr>"

definition new_shm :: "32 word \<Rightarrow> shm_struct_t" where
  "new_shm n_bitmaps =
     zero_shm\<lparr>magic := MAGIC, unused := 0,
              num_locks := ucast (bitmaps_times_size n_bitmaps),
              num_bitmaps := n_bitmaps,
              segment_lock := pthread_mutex_init\<rparr>"

text \<open>Successive \<^verbatim>\<open>allocate_semaphore\<close> calls on one segment, with the values they
  return in order.\<close>

fun allocate_repeatedly :: "tid \<Rightarrow> nat \<Rightarrow> shm_struct_t ptr \<Rightarrow> (int list \<times> shm_struct_t ptr) option" where
  "allocate_repeatedly self 0 shm = Some ([], shm)"
| "allocate_repeatedly self (Suc n) shm =
     (case allocate_semaphore self shm of
        None \<Rightarrow> None
      | Some (r, shm1) \<Rightarrow>
          (case allocate_repeatedly self n shm1 of
             None \<Rightarrow> None
           | Some (rs, shm2) \<Rightarrow> Some (r # rs, shm2)))"

text \<open>The segment of two groups (capacity 64) whose slots \<open>0, \<dots>, k - 1\<close> are
  allocated and no other.\<close>

definition filled_shm :: "nat \<Rightarrow> shm_struct_t" where
  "filled_shm k =
     (new_shm 2)\<lparr>locks := (\<lambda>g. \<lparr>bitmap = mask (k - 32 * g), locks = (\<lambda>j. pthread_mutex_init)\<rparr>)\<rparr>"

text \<open>The invariant of the data model that ties the two counts of the header:
  \<^verbatim>\<open>num_locks\<close> is \<^verbatim>\<open>num_bitmaps\<close> times \<^verbatim>\<open>BITMAP_SIZE\<close>.\<close>

definition lock_count_invariant :: "shm_struct_t \<Rightarrow> bool" where
  "lock_count_invariant shm = (unat (num_locks shm) = unat (num_bitmaps shm) * BITMAP_SIZE)"

text \<open>What a call may leave of a segment \<open>s\<close> in the segment \<open>s'\<close> it returns: the
  header fields as they were; every bitmap as it was; or one bit \<open>p\<close> of the bitmap of
  one group \<open>g\<close> inverted and every other bitmap as it was.\<close>

abbreviation header_unchanged :: "shm_struct_t \<Rightarrow> shm_struct_t \<Rightarrow> bool" where
  "header_unchanged s s' \<equiv>
     magic s' = magic s \<and> num_bitmaps s' = num_bitmaps s \<and> num_locks s' = num_locks s"

abbreviation bitmaps_unchanged :: "shm_struct_t \<Rightarrow> shm_struct_t \<Rightarrow> bool" where
  "bitmaps_unchanged s s' \<equiv> (\<forall>g. bitmap (locks s' g) = bitmap (locks s g))"

abbreviation one_bit_changed :: "shm_struct_t \<Rightarrow> shm_struct_t \<Rightarrow> nat \<Rightarrow> nat \<Rightarrow> bool" where
  "one_bit_changed s s' g p \<equiv>
     p < 32 \<and> bitmap (locks s' g) = flip_bit p (bitmap (locks s g))
     \<and> (\<forall>g'. g' \<noteq> g \<longrightarrow> bitmap (locks s' g') = bitmap (locks s g'))"

section \<open>Counting bits\<close>

text \<open>The number of set bits of a bitmap, and the sum of the binary digits of a
  natural number.\<close>

definition popcount :: "bitmap_t \<Rightarrow> nat" where
  "popcount w = length (filter (bit w) [0..<32])"

fun digit_sum :: "nat \<Rightarrow> nat" where
  "digit_sum n = (if n = 0 then 0 else n mod 2 + digit_sum (n div 2))"

declare digit_sum.simps [simp del]

text \<open>The count of free slots in the spec's words: the sum over all groups of 32 minus
  the number of set bits of the group's bitmap.\<close>

definition available_count_spec :: "shm_struct_t \<Rightarrow> nat" where
  "available_count_spec shm =
     (\<Sum>g<unat (num_bitmaps shm). 32 - popcount (bitmap (locks shm g)))"

text \<open>
  A model of the system's side: how the GNU C library's \<^verbatim>\<open>shm_open\<close> judges a name. It
  skips every leading slash, then refuses with \<^verbatim>\<open>EINVAL\<close> a name that is empty, that still
  holds a slash, or whose length with the terminating null reaches \<^verbatim>\<open>NAME_MAX\<close> (255).
  The length rule is that of the library before version 2.34; later versions accept one
  character more and answer \<^verbatim>\<open>ENAMETOOLONG\<close> beyond. Only the rules on slashes are
  used below, at short names. \<open>gnu_os\<close> is the quiet system with this judgement.
\<close>

definition gnu_shm_name_errno :: "string \<Rightarrow> int" where
  "gnu_shm_name_errno path =
     (let name = dropWhile (\<lambda>c. c = CHR ''/'') path in
      if name = [] \<or> 255 \<le> length name + 1 \<or> CHR ''/'' \<in> set name then EINVAL else 0)"

definition gnu_os :: os_t where
  "gnu_os = quiet_os\<lparr>shm_name_errno := gnu_shm_name_errno\<rparr>"

text \<open>The system \<open>os\<close> after a \<^verbatim>\<open>setup_lock_shm\<close> call for \<open>n_locks\<close> locks under
  the name \<open>path\<close>.\<close>

definition os_after_setup :: "os_t \<Rightarrow> string \<Rightarrow> 32 word \<Rightarrow> os_t" where
  "os_after_setup os path n_locks = snd (snd (setup_lock_shm os (Ptr path) n_locks (Ptr 0)))"

text \<open>The part of \<open>lock_count_invariant\<close> the index checks rest on: every index below \<^verbatim>\<open>num_locks\<close> lies in
  a group below \<^verbatim>\<open>num_bitmaps\<close>. (\<^verbatim>\<open>allocate_given_semaphore\<close> and
  \<^verbatim>\<open>deallocate_semaphore\<close> test it again and answer \<^verbatim>\<open>-EFAULT\<close> with the comment "This
  should never happen".)\<close>

definition groups_cover_locks :: "shm_struct_t \<Rightarrow> bool" where
  "groups_cover_locks shm = (unat (num_locks shm) \<le> unat (num_bitmaps shm) * BITMAP_SIZE)"

section \<open>Crash recovery\<close>

lemma take_mutex_lock_loop_drain:
  "take_mutex_lock_loop self mutex = take_mutex_lock_loop self (mutex\<lparr>eagain_pending := 0\<rparr>)"
proof (induction "eagain_pending mutex" arbitrary: mutex)
  case 0
  then have "mutex\<lparr>eagain_pending := 0\<rparr> = mutex" by simp
  then show ?case by simp
next
  case (Suc n)
  from Suc.hyps(2) [symmetric] have "take_mutex_lock_loop self mutex =
      take_mutex_lock_loop self (mutex\<lparr>eagain_pending := n\<rparr>)"
    by (subst take_mutex_lock_loop.simps) (simp add: pthread_mutex_lock_def)
  also have "\<dots> = take_mutex_lock_loop self (mutex\<lparr>eagain_pending := n, eagain_pending := 0\<rparr>)"
    using Suc.hyps(1) [of "mutex\<lparr>eagain_pending := n\<rparr>"] by simp
  finally show ?case by simp
qed

lemma take_mutex_trylock_loop_drain:
  "take_mutex_trylock_loop self mutex = take_mutex_trylock_loop self (mutex\<lparr>eagain_pending := 0\<rparr>)"
proof (induction "eagain_pending mutex" arbitrary: mutex)
  case 0
  then have "mutex\<lparr>eagain_pending := 0\<rparr> = mutex" by simp
  then show ?case by simp
next
  case (Suc n)
  from Suc.hyps(2) [symmetric] have "take_mutex_trylock_loop self mutex =
      take_mutex_trylock_loop self (mutex\<lparr>eagain_pending := n\<rparr>)"
    by (subst take_mutex_trylock_loop.simps) (simp add: pthread_mutex_trylock_def)
  also have "\<dots> = take_mutex_trylock_loop self (mutex\<lparr>eagain_pending := n, eagain_pending := 0\<rparr>)"
    using Suc.hyps(1) [of "mutex\<lparr>eagain_pending := n\<rparr>"] by simp
  finally show ?case by simp
qed

lemma release_mutex_unlock_loop_drain:
  "release_mutex_unlock_loop self mutex = release_mutex_unlock_loop self (mutex\<lparr>eagain_pending := 0\<rparr>)"
proof (induction "eagain_pending mutex" arbitrary: mutex)
  case 0
  then have "mutex\<lparr>eagain_pending := 0\<rparr> = mutex" by simp
  then show ?case by simp
next
  case (Suc n)
  from Suc.hyps(2) [symmetric] have "release_mutex_unlock_loop self mutex =
      release_mutex_unlock_loop self (mutex\<lparr>eagain_pending := n\<rparr>)"
    by (subst release_mutex_unlock_loop.simps) (simp add: pthread_mutex_unlock_def)
  also have "\<dots> = release_mutex_unlock_loop self (mutex\<lparr>eagain_pending := n, eagain_pending := 0\<rparr>)"
    using Suc.hyps(1) [of "mutex\<lparr>eagain_pending := n\<rparr>"] by simp
  finally show ?case by simp
qed

text \<open>What one attempt gives once the transient answers are over.\<close>

lemma take_mutex_lock_loop_eq:
  "take_mutex_lock_loop self mutex =
     (case mstate mutex of
        Unlocked \<Rightarrow> Some (0, mutex\<lparr>eagain_pending := 0, mstate := Locked self\<rparr>)
      | Locked t \<Rightarrow> None
      | OwnerDead \<Rightarrow> Some (EOWNERDEAD, mutex\<lparr>eagain_pending := 0, mstate := Inconsistent self\<rparr>)
      | Inconsistent t \<Rightarrow> None
      | NotRecoverable \<Rightarrow> Some (ENOTRECOVERABLE, mutex\<lparr>eagain_pending := 0\<rparr>))"
  by (subst take_mutex_lock_loop_drain, subst take_mutex_lock_loop.simps)
     (simp add: pthread_mutex_lock_def errno_defs split: mutex_state.splits)

lemma take_mutex_trylock_loop_eq:
  "take_mutex_trylock_loop self mutex =
     (case mstate mutex of
        Unlocked \<Rightarrow> (0, mutex\<lparr>eagain_pending := 0, mstate := Locked self\<rparr>)
      | Locked t \<Rightarrow> (EBUSY, mutex\<lparr>eagain_pending := 0\<rparr>)
      | OwnerDead \<Rightarrow> (EOWNERDEAD, mutex\<lparr>eagain_pending := 0, mstate := Inconsistent self\<rparr>)
      | Inconsistent t \<Rightarrow> (EBUSY, mutex\<lparr>eagain_pending := 0\<rparr>)
      | NotRecoverable \<Rightarrow> (ENOTRECOVERABLE, mutex\<lparr>eagain_pending := 0\<rparr>))"
  by (subst take_mutex_trylock_loop_drain, subst take_mutex_trylock_loop.simps)
     (simp add: pthread_mutex_trylock_def errno_defs split: mutex_state.splits)

lemma release_mutex_unlock_loop_eq:
  "release_mutex_unlock_loop self mutex =
     (case mstate mutex of
        Locked t \<Rightarrow> if t = self then (0, mutex\<lparr>eagain_pending := 0, mstate := Unlocked\<rparr>)
                    else (EPERM, mutex\<lparr>eagain_pending := 0\<rparr>)
      | Inconsistent t \<Rightarrow> if t = self then (0, mutex\<lparr>eagain_pending := 0, mstate := NotRecoverable\<rparr>)
                    else (EPERM, mutex\<lparr>eagain_pending := 0\<rparr>)
      | _ \<Rightarrow> (EPERM, mutex\<lparr>eagain_pending := 0\<rparr>))"
  by (subst release_mutex_unlock_loop_drain, subst release_mutex_unlock_loop.simps)
     (simp add: pthread_mutex_unlock_def errno_defs split: mutex_state.splits)

lemma take_mutex_eq:
  "take_mutex self mutex trylock =
     (case mstate mutex of
        Unlocked \<Rightarrow> Some (0, mutex\<lparr>eagain_pending := 0, mstate := Locked self\<rparr>)
      | Locked t \<Rightarrow> if trylock then Some (EBUSY, mutex\<lparr>eagain_pending := 0\<rparr>) else None
      | OwnerDead \<Rightarrow>
          Some (pthread_mutex_consistent self
                  (mutex\<lparr>eagain_pending := 0, mstate := Inconsistent self\<rparr>))
      | Inconsistent t \<Rightarrow> if trylock then Some (EBUSY, mutex\<lparr>eagain_pending := 0\<rparr>) else None
      | NotRecoverable \<Rightarrow> Some (ENOTRECOVERABLE, mutex\<lparr>eagain_pending := 0\<rparr>))"
  by (simp add: take_mutex_def take_mutex_lock_loop_eq take_mutex_trylock_loop_eq
        pthread_mutex_consistent_def errno_defs split: mutex_state.splits)

lemma release_mutex_eq:
  "release_mutex self mutex = release_mutex_unlock_loop self mutex"
  by (simp add: release_mutex_def split: prod.splits)

lemma take_mutex_0_holds:
  assumes "take_mutex self mutex trylock = Some (0, mutex1)"
  shows "mstate mutex1 = Locked self \<and> eagain_pending mutex1 = 0"
  using assms
  by (auto simp: take_mutex_eq pthread_mutex_consistent_def errno_defs
        split: mutex_state.splits if_splits)

lemma release_after_take:
  assumes "take_mutex self mutex trylock = Some (0, mutex1)"
  shows "release_mutex self mutex1 = (0, mutex1\<lparr>mstate := Unlocked\<rparr>)"
proof -
  from take_mutex_0_holds [OF assms]
  have "mstate mutex1 = Locked self" and e: "eagain_pending mutex1 = 0" by simp_all
  moreover from e have "mutex1\<lparr>eagain_pending := 0\<rparr> = mutex1" by simp
  ultimately show ?thesis
    by (simp add: release_mutex_eq release_mutex_unlock_loop_eq)
qed

text \<open>
  Claim C4. An acquisition, blocking or not, that finds the mutex abandoned by a
  terminated holder gets \<^verbatim>\<open>EOWNERDEAD\<close> from its one lock attempt and calls
  \<^verbatim>\<open>pthread_mutex_consistent\<close> once; what that call answers is what the acquisition
  returns. When it answers 0 the caller holds the mutex, consistent again. When it
  refuses, its error code is returned at once: the mutex is left as the refused call
  left it, acquired but inconsistent, and no further lock attempt is made.
\<close>

theorem take_mutex_abandoned:
  assumes "mstate mutex = OwnerDead"
  shows "take_mutex self mutex trylock =
           Some (pthread_mutex_consistent self
                   (mutex\<lparr>eagain_pending := 0, mstate := Inconsistent self\<rparr>))
         \<and> take_mutex self mutex trylock =
             (if consistent_fails mutex
              then Some (EINVAL, mutex\<lparr>eagain_pending := 0, mstate := Inconsistent self\<rparr>)
              else Some (0, mutex\<lparr>eagain_pending := 0, mstate := Locked self\<rparr>))"
  using assms by (simp add: take_mutex_eq pthread_mutex_consistent_def)

theorem take_mutex_abandoned_witness:
  "mstate (holder_terminates \<lparr>mstate = Locked 7, eagain_pending = 2, consistent_fails = False\<rparr>) = OwnerDead
   \<and> take_mutex 3 (holder_terminates \<lparr>mstate = Locked 7, eagain_pending = 2, consistent_fails = False\<rparr>) False
       = Some (0, \<lparr>mstate = Locked 3, eagain_pending = 0, consistent_fails = False\<rparr>)
   \<and> take_mutex 3 (holder_terminates \<lparr>mstate = Locked 7, eagain_pending = 2, consistent_fails = True\<rparr>) True
       = Some (22, \<lparr>mstate = Inconsistent 3, eagain_pending = 0, consistent_fails = True\<rparr>)"
  using take_mutex_abandoned [of "holder_terminates \<lparr>mstate = Locked 7, eagain_pending = 2, consistent_fails = False\<rparr>" 3 False]
    take_mutex_abandoned [of "holder_terminates \<lparr>mstate = Locked 7, eagain_pending = 2, consistent_fails = True\<rparr>" 3 True]
  by (simp add: holder_terminates_def pthread_mutex_consistent_def EINVAL_def)

lemma bitmap_store_slot_mutex [simp]:
  "bitmap (locks (store_slot_mutex s b i m) g) = bitmap (locks s g)"
  by (simp add: store_slot_mutex_def)

lemma header_store_slot_mutex [simp]:
  "magic (store_slot_mutex s b i m) = magic s"
  "unused (store_slot_mutex s b i m) = unused s"
  "segment_lock (store_slot_mutex s b i m) = segment_lock s"
  "num_bitmaps (store_slot_mutex s b i m) = num_bitmaps s"
  "num_locks (store_slot_mutex s b i m) = num_locks s"
  by (simp_all add: store_slot_mutex_def)

lemma slot_mutex_store_slot_mutex [simp]:
  "slot_mutex (store_slot_mutex s b i m) b i = m"
  by (simp add: store_slot_mutex_def slot_mutex_def)

lemma store_slot_mutex_twice [simp]:
  "store_slot_mutex (store_slot_mutex s b i m) b i m' = store_slot_mutex s b i m'"
  by (simp add: store_slot_mutex_def)

lemma slot_mutex_store_bitmap [simp]:
  "slot_mutex (store_bitmap s g v) b i = slot_mutex s b i"
  by (simp add: store_bitmap_def slot_mutex_def)

lemma num_locks_store_bitmap [simp]:
  "num_locks (store_bitmap s g v) = num_locks s"
  by (simp add: store_bitmap_def)



lemma eagain_update_idem:
  "eagain_pending m = e \<Longrightarrow> m\<lparr>eagain_pending := e\<rparr> = m"
  by (cases m) simp

section \<open>The liveness probe\<close>








section \<open>Lock state and allocation state\<close>

lemma lock_semaphore_bitmaps:
  assumes "lock_semaphore self (Ptr s) i = Some (rc, Ptr s')"
  shows "bitmap (locks s' g) = bitmap (locks s g)"
  using assms
  by (auto simp: lock_semaphore_def Let_def split: if_splits option.splits prod.splits)

lemma unlock_semaphore_bitmaps:
  assumes "unlock_semaphore self (Ptr s) i = (rc, Ptr s')"
  shows "bitmap (locks s' g) = bitmap (locks s g)"
  using assms
  by (auto simp: unlock_semaphore_def Let_def split: if_splits option.splits prod.splits)

lemma try_lock_bitmaps:
  assumes "try_lock self (Ptr s) i = Some (rc, Ptr s')"
  shows "bitmap (locks s' g) = bitmap (locks s g)"
  using assms
  by (auto simp: try_lock_def Let_def split: if_splits option.splits prod.splits)

lemma lock_semaphore_any_bitmap:
  "map_option fst (lock_semaphore self (Ptr (store_bitmap s g v)) i)
     = map_option fst (lock_semaphore self (Ptr s) i)"
  by (simp add: lock_semaphore_def Let_def split: option.splits prod.splits)

lemma unlock_semaphore_any_bitmap:
  "fst (unlock_semaphore self (Ptr (store_bitmap s g v)) i)
     = fst (unlock_semaphore self (Ptr s) i)"
  by (simp add: unlock_semaphore_def Let_def split: option.splits prod.splits)

lemma try_lock_any_bitmap:
  "map_option fst (try_lock self (Ptr (store_bitmap s g v)) i)
     = map_option fst (try_lock self (Ptr s) i)"
  by (simp add: try_lock_def Let_def split: option.splits prod.splits)

lemma lock_semaphore_free:
  assumes "i < num_locks s"
    and "g = unat i div 32" and "p = unat i mod 32"
    and "mstate (slot_mutex s g p) = Unlocked"
  shows "lock_semaphore self (Ptr s) i =
           Some (0, Ptr (store_slot_mutex s g p
                   ((slot_mutex s g p)\<lparr>eagain_pending := 0, mstate := Locked self\<rparr>)))"
  using assms
  by (simp add: lock_semaphore_def take_mutex_eq BITMAP_SIZE_def Let_def not_le errno_defs)

lemma unlock_semaphore_held:
  assumes "i < num_locks s"
    and "g = unat i div 32" and "p = unat i mod 32"
    and "mstate (slot_mutex s g p) = Locked self"
  shows "unlock_semaphore self (Ptr s) i =
           (0, Ptr (store_slot_mutex s g p
                   ((slot_mutex s g p)\<lparr>eagain_pending := 0, mstate := Unlocked\<rparr>)))"
  using assms
  by (simp add: unlock_semaphore_def release_mutex_eq release_mutex_unlock_loop_eq
        BITMAP_SIZE_def Let_def not_le errno_defs)

lemma lock_unlock_free_slot:
  assumes v: "i < num_locks s"
    and f: "mstate (slot_mutex s (unat i div 32) (unat i mod 32)) = Unlocked"
  shows "\<exists>s1 s2. lock_semaphore self (Ptr s) i = Some (0, Ptr s1)
           \<and> mstate (slot_mutex s1 (unat i div 32) (unat i mod 32)) = Locked self
           \<and> unlock_semaphore self (Ptr s1) i = (0, Ptr s2)
           \<and> mstate (slot_mutex s2 (unat i div 32) (unat i mod 32)) = Unlocked
           \<and> (\<forall>g. bitmap (locks s2 g) = bitmap (locks s g))"
proof -
  define g where "g = unat i div 32"
  define p where "p = unat i mod 32"
  define s1 where "s1 = store_slot_mutex s g p
      ((slot_mutex s g p)\<lparr>eagain_pending := 0, mstate := Locked self\<rparr>)"
  define s2 where "s2 = store_slot_mutex s1 g p
      ((slot_mutex s1 g p)\<lparr>eagain_pending := 0, mstate := Unlocked\<rparr>)"
  have l: "lock_semaphore self (Ptr s) i = Some (0, Ptr s1)"
    unfolding s1_def using v f by (intro lock_semaphore_free) (simp_all add: g_def p_def)
  have h: "mstate (slot_mutex s1 g p) = Locked self"
    by (simp add: s1_def)
  have v1: "i < num_locks s1" using v by (simp add: s1_def)
  have u: "unlock_semaphore self (Ptr s1) i = (0, Ptr s2)"
    unfolding s2_def using v1 h by (intro unlock_semaphore_held) (simp_all add: g_def p_def)
  have "mstate (slot_mutex s2 g p) = Unlocked" by (simp add: s2_def)
  moreover have "\<forall>g. bitmap (locks s2 g) = bitmap (locks s g)"
    by (simp add: s2_def s1_def)
  ultimately show ?thesis using l h u unfolding g_def p_def by blast
qed

text \<open>
  Claim C5. The per-slot lock operations never read or write an allocation bitmap:
  whatever \<^verbatim>\<open>lock_semaphore\<close>, \<^verbatim>\<open>unlock_semaphore\<close> and \<^verbatim>\<open>try_lock\<close> return, every
  group's bitmap is as it was, and the value they return is the same whatever any
  group's bitmap holds. So on a valid index whose mutex is free, taking the lock and
  releasing it both return 0, with no condition on the slot's allocation bit.
\<close>

theorem lock_state_decoupled:
  "(\<forall>rc s' g. lock_semaphore self (Ptr s) i = Some (rc, Ptr s') \<longrightarrow>
       bitmap (locks s' g) = bitmap (locks s g))
   \<and> (\<forall>rc s' g. unlock_semaphore self (Ptr s) i = (rc, Ptr s') \<longrightarrow>
       bitmap (locks s' g) = bitmap (locks s g))
   \<and> (\<forall>rc s' g. try_lock self (Ptr s) i = Some (rc, Ptr s') \<longrightarrow>
       bitmap (locks s' g) = bitmap (locks s g))
   \<and> (\<forall>g v. map_option fst (lock_semaphore self (Ptr (store_bitmap s g v)) i)
              = map_option fst (lock_semaphore self (Ptr s) i))
   \<and> (\<forall>g v. fst (unlock_semaphore self (Ptr (store_bitmap s g v)) i)
              = fst (unlock_semaphore self (Ptr s) i))
   \<and> (\<forall>g v. map_option fst (try_lock self (Ptr (store_bitmap s g v)) i)
              = map_option fst (try_lock self (Ptr s) i))
   \<and> (i < num_locks s \<and> mstate (slot_mutex s (unat i div 32) (unat i mod 32)) = Unlocked \<longrightarrow>
       (\<exists>s1 s2. lock_semaphore self (Ptr s) i = Some (0, Ptr s1)
           \<and> mstate (slot_mutex s1 (unat i div 32) (unat i mod 32)) = Locked self
           \<and> unlock_semaphore self (Ptr s1) i = (0, Ptr s2)
           \<and> mstate (slot_mutex s2 (unat i div 32) (unat i mod 32)) = Unlocked
           \<and> (\<forall>g. bitmap (locks s2 g) = bitmap (locks s g))))"
proof (intro conjI allI impI)
  fix rc s' g
  show "bitmap (locks s' g) = bitmap (locks s g)"
    if "lock_semaphore self (Ptr s) i = Some (rc, Ptr s')"
    using that by (rule lock_semaphore_bitmaps)
  show "bitmap (locks s' g) = bitmap (locks s g)"
    if "unlock_semaphore self (Ptr s) i = (rc, Ptr s')"
    using that by (rule unlock_semaphore_bitmaps)
  show "bitmap (locks s' g) = bitmap (locks s g)"
    if "try_lock self (Ptr s) i = Some (rc, Ptr s')"
    using that by (rule try_lock_bitmaps)
next
  fix g v
  show "map_option fst (lock_semaphore self (Ptr (store_bitmap s g v)) i)
              = map_option fst (lock_semaphore self (Ptr s) i)"
    by (rule lock_semaphore_any_bitmap)
  show "fst (unlock_semaphore self (Ptr (store_bitmap s g v)) i)
              = fst (unlock_semaphore self (Ptr s) i)"
    by (rule unlock_semaphore_any_bitmap)
  show "map_option fst (try_lock self (Ptr (store_bitmap s g v)) i)
              = map_option fst (try_lock self (Ptr s) i)"
    by (rule try_lock_any_bitmap)
next
  assume "i < num_locks s \<and> mstate (slot_mutex s (unat i div 32) (unat i mod 32)) = Unlocked"
  then show "\<exists>s1 s2. lock_semaphore self (Ptr s) i = Some (0, Ptr s1)
           \<and> mstate (slot_mutex s1 (unat i div 32) (unat i mod 32)) = Locked self
           \<and> unlock_semaphore self (Ptr s1) i = (0, Ptr s2)
           \<and> mstate (slot_mutex s2 (unat i div 32) (unat i mod 32)) = Unlocked
           \<and> (\<forall>g. bitmap (locks s2 g) = bitmap (locks s g))"
    using lock_unlock_free_slot [of i s self] by blast
qed


theorem lock_state_decoupled_witness:
  "(5 :: 32 word) < num_locks (new_shm 2)
   \<and> mstate (slot_mutex (new_shm 2) (unat (5 :: 32 word) div 32) (unat (5 :: 32 word) mod 32))
       = Unlocked
   \<and> bitmap (locks (new_shm 2) 0) = 0
   \<and> (\<exists>s1 s2. lock_semaphore 1 (Ptr (new_shm 2)) 5 = Some (0, Ptr s1)
         \<and> unlock_semaphore 1 (Ptr s1) 5 = (0, Ptr s2)
         \<and> bitmap (locks s2 0) = 0)
   \<and> map_option fst (lock_semaphore 1 (Ptr (store_bitmap (new_shm 2) 0 0xFFFFFFFF)) 5) = Some 0"
proof -
  note T = lock_state_decoupled [of 1 "new_shm 2" 5]
  have v: "(5 :: 32 word) < num_locks (new_shm 2)"
    by (simp add: new_shm_def bitmaps_times_size_def BITMAP_SIZE_def)
  have f: "mstate (slot_mutex (new_shm 2) (unat (5 :: 32 word) div 32)
      (unat (5 :: 32 word) mod 32)) = Unlocked"
    by (simp add: new_shm_def slot_mutex_def zero_shm_def pthread_mutex_init_def)
  have b: "bitmap (locks (new_shm 2) 0) = 0"
    by (simp add: new_shm_def zero_shm_def)
  from T v f obtain s1 s2 where l: "lock_semaphore 1 (Ptr (new_shm 2)) 5 = Some (0, Ptr s1)"
    and u: "unlock_semaphore 1 (Ptr s1) 5 = (0, Ptr s2)"
    and k: "\<forall>g. bitmap (locks s2 g) = bitmap (locks (new_shm 2) g)"
    by blast
  from T have "map_option fst (lock_semaphore 1 (Ptr (store_bitmap (new_shm 2) 0 0xFFFFFFFF)) 5)
      = map_option fst (lock_semaphore 1 (Ptr (new_shm 2)) 5)"
    by blast
  with l have i: "map_option fst (lock_semaphore 1 (Ptr (store_bitmap (new_shm 2) 0 0xFFFFFFFF)) 5)
      = Some 0"
    by simp
  from k b have "bitmap (locks s2 0) = 0" by simp
  with l u have "\<exists>s1 s2. lock_semaphore 1 (Ptr (new_shm 2)) 5 = Some (0, Ptr s1)
         \<and> unlock_semaphore 1 (Ptr s1) 5 = (0, Ptr s2)
         \<and> bitmap (locks s2 0) = 0"
    by blast
  with v f b i show ?thesis by blast
qed

section \<open>Creating and opening a segment\<close>

lemma round_up_exact: "(x :: nat) mod 32 = 0 \<Longrightarrow> (x + 31) div 32 = x div 32"
proof -
  assume a: "x mod 32 = 0"
  define d where "d = x div 32"
  have x: "x = 32 * d" using a unfolding d_def by fastforce
  have "32 * d \<le> 32 * d + 31" "32 * d + 31 < 32 * Suc d" by simp_all
  then have "(32 * d + 31) div 32 = d" by (rule div_nat_eqI)
  then show ?thesis unfolding d_def [symmetric] x by simp
qed

lemma round_up_inexact: "(x :: nat) mod 32 \<noteq> 0 \<Longrightarrow> (x + 31) div 32 = x div 32 + 1"
proof -
  assume a: "x mod 32 \<noteq> 0"
  define d where "d = x div 32"
  define m where "m = x mod 32"
  have x: "x = 32 * d + m" unfolding d_def m_def by simp
  have m: "0 < m" "m < 32" using a unfolding m_def by simp_all
  then have "32 * (d + 1) \<le> 32 * d + m + 31" "32 * d + m + 31 < 32 * Suc (d + 1)" by simp_all
  then have "(32 * d + m + 31) div 32 = d + 1" by (rule div_nat_eqI)
  moreover have "x div 32 = d" by (simp add: d_def)
  ultimately show ?thesis unfolding x by simp
qed

lemma bitmaps_required_unat: "unat (bitmaps_required n) = (unat n + 31) div 32"
proof -
  have d: "unat (n div 32) = unat n div 32" by (simp add: unat_div)
  have "unat (n mod 32) = unat n mod 32" by (simp add: unat_mod)
  then have m: "(n mod 32 = 0) = (unat n mod 32 = 0)" by (metis unat_eq_zero)
  have "unat n < 2 ^ 32" using unsigned_less [of n] by simp
  then have small: "unat n div 32 + 1 < 2 ^ 32" by simp
  have "unat (n div 32 + 1) = (unat (n div 32) + unat (1 :: 32 word)) mod 2 ^ LENGTH(32)"
    by (rule unat_word_ariths)
  with small have s: "unat (n div 32 + 1) = unat n div 32 + 1" by (simp add: d)
  show ?thesis
  proof (cases "unat n mod 32 = 0")
    case True
    with round_up_exact [OF True] show ?thesis
      by (simp add: bitmaps_required_def BITMAP_SIZE_def m d)
  next
    case False
    with round_up_inexact [OF False] show ?thesis
      by (simp add: bitmaps_required_def BITMAP_SIZE_def m s)
  qed
qed

lemma bitmaps_times_size_unat: "unat (bitmaps_times_size b) = unat b * 32"
proof -
  have b32: "unat b < 2 ^ 32" using unsigned_less [of b] by simp
  then have lt: "unat b * 32 < 2 ^ 64" by simp
  have "unat (ucast b * (32 :: 64 word))
      = (unat (ucast b :: 64 word) * unat (32 :: 64 word)) mod 2 ^ LENGTH(64)"
    by (rule unat_word_ariths)
  also have "unat (ucast b :: 64 word) = unat b"
  proof -
    from b32 have "unat b < 2 ^ 64" by simp
    then have "take_bit 64 (unat b) = unat b" by (rule take_bit_nat_eq_self)
    then show ?thesis by (simp add: unsigned_ucast_eq)
  qed
  finally show ?thesis using lt by (simp add: bitmaps_times_size_def BITMAP_SIZE_def)
qed

lemma stored_num_locks_unat:
  "unat (ucast (bitmaps_times_size b) :: 32 word) = (unat b * 32) mod 2 ^ 32"
  by (simp add: unsigned_ucast_eq take_bit_eq_mod bitmaps_times_size_unat)

lemma setup_init_mutexes_zero:
  assumes "\<forall>k. mutex_init_ret os k = 0"
    and "\<forall>k. lock_group_t.locks g k = pthread_mutex_init"
  shows "setup_init_mutexes os i j g = Inr g"
proof (induction "BITMAP_SIZE - j" arbitrary: j)
  case 0
  then show ?case by (subst setup_init_mutexes.simps) simp
next
  case (Suc d)
  then have lt: "j < BITMAP_SIZE" by simp
  from assms(2) have "(lock_group_t.locks g)(j := pthread_mutex_init) = lock_group_t.locks g"
    by (simp add: fun_eq_iff)
  then have same: "g\<lparr>lock_group_t.locks := (lock_group_t.locks g)(j := pthread_mutex_init)\<rparr> = g"
    by simp
  have "setup_init_mutexes os i (Suc j) g = Inr g"
    using Suc.hyps(2) by (intro Suc.hyps(1)) simp
  with lt assms(1) same show ?case
    by (subst setup_init_mutexes.simps) simp
qed

lemma setup_init_groups_zero:
  assumes "\<forall>k. mutex_init_ret os k = 0"
    and "\<forall>k. locks shm k = \<lparr>bitmap = 0, locks = (\<lambda>j. pthread_mutex_init)\<rparr>"
  shows "setup_init_groups os n shm i = Inr shm"
proof (induction "n - i" arbitrary: i)
  case 0
  then show ?case by (subst setup_init_groups.simps) simp
next
  case (Suc d)
  then have lt: "i < n" by simp
  from assms(2) have g: "(locks shm i)\<lparr>bitmap := 0\<rparr> = locks shm i"
    and l: "\<forall>k. lock_group_t.locks ((locks shm i)\<lparr>bitmap := 0\<rparr>) k = pthread_mutex_init"
    by simp_all
  from setup_init_mutexes_zero [OF assms(1) l]
  have m: "setup_init_mutexes os i 0 ((locks shm i)\<lparr>bitmap := 0\<rparr>) = Inr (locks shm i)"
    by (simp only: g)
  have same: "shm\<lparr>locks := (locks shm)(i := locks shm i)\<rparr> = shm" by simp
  have "setup_init_groups os n shm (Suc i) = Inr shm"
    using Suc.hyps(2) by (intro Suc.hyps(1)) simp
  with lt m same show ?case
    by (subst setup_init_groups.simps) simp
qed

lemma new_shm_groups:
  "locks (new_shm b) k = \<lparr>bitmap = 0, locks = (\<lambda>j. pthread_mutex_init)\<rparr>"
  by (simp add: new_shm_def zero_shm_def)

lemma setup_lock_shm_created:
  assumes n: "n \<noteq> 0"
    and name: "shm_name_errno os name = 0" and fresh: "shm_objects os name = None"
    and sys: "ftruncate_errno os = 0" "mmap_errno os = 0" "mutexattr_init_ret os = 0"
      "mutexattr_settype_ret os = 0" "mutexattr_setpshared_ret os = 0"
      "mutexattr_setrobust_ret os = 0"
    and init: "\<forall>k. mutex_init_ret os k = 0"
  shows "setup_lock_shm os (Ptr name) n (Ptr ec) =
           (Ptr (new_shm (bitmaps_required n)), Ptr ec,
            os\<lparr>shm_objects := (shm_objects os)(name := Some (new_shm (bitmaps_required n))),
               mappings := mappings os + 1\<rparr>)"
proof -
  define os2 where "os2 = os\<lparr>shm_objects := (shm_objects os)(name := Some zero_shm),
      open_fds := open_fds os + 1, mappings := mappings os + 1\<rparr>"
  have i2: "\<forall>k. mutex_init_ret os2 k = 0" using init by (simp add: os2_def)
  have "setup_init_groups os2 (unat (bitmaps_required n)) (new_shm (bitmaps_required n)) 0
      = Inr (new_shm (bitmaps_required n))"
    by (rule setup_init_groups_zero [OF i2]) (simp add: new_shm_groups)
  then show ?thesis
    using n name fresh sys init
    by (simp add: setup_lock_shm_def shm_open_def Let_def os2_def new_shm_def close_fd_def)
qed

lemma gnu_os_fields [simp]:
  "shm_objects gnu_os = (\<lambda>path. None)" "open_fds gnu_os = 0" "mappings gnu_os = 0"
  "shm_name_errno gnu_os = gnu_shm_name_errno"
  "ftruncate_errno gnu_os = 0" "mmap_errno gnu_os = 0" "mutexattr_init_ret gnu_os = 0"
  "mutexattr_settype_ret gnu_os = 0" "mutexattr_setpshared_ret gnu_os = 0"
  "mutexattr_setrobust_ret gnu_os = 0" "mutex_init_ret gnu_os = (\<lambda>k. 0)"
  by (simp_all add: gnu_os_def quiet_os_def)

lemma gnu_accepts_plain: "gnu_shm_name_errno ''/libpod_lock'' = 0"
  by (simp add: gnu_shm_name_errno_def)

lemma gnu_accepts_no_slash: "gnu_shm_name_errno ''libpod_lock'' = 0"
  by (simp add: gnu_shm_name_errno_def)

lemma gnu_accepts_two_slashes: "gnu_shm_name_errno ''//libpod_lock'' = 0"
  by (simp add: gnu_shm_name_errno_def)

lemma gnu_refuses_inner_slash: "gnu_shm_name_errno ''/libpod/lock'' = EINVAL"
  by (simp add: gnu_shm_name_errno_def)

lemma bitmaps_required_examples:
  "bitmaps_required 5 = 1" "bitmaps_required 32 = 1" "bitmaps_required 33 = 2"
  "bitmaps_required 64 = 2" "bitmaps_required 0xFFFFFFFF = 0x8000000"
  by (simp_all add: bitmaps_required_def BITMAP_SIZE_def)

lemma new_shm_counts:
  "num_bitmaps (new_shm b) = b"
  "num_locks (new_shm b) = ucast (bitmaps_times_size b)"
  "magic (new_shm b) = MAGIC"
  by (simp_all add: new_shm_def)

lemma num_locks_examples:
  "num_locks (new_shm 1) = 32" "num_locks (new_shm 0x8000000) = 0"
  by (simp_all add: new_shm_counts bitmaps_times_size_def BITMAP_SIZE_def)

lemma setup_lock_shm_covers: "groups_cover_locks (new_shm (bitmaps_required n))"
proof -
  have "unat (num_locks (new_shm (bitmaps_required n)))
      = (unat (bitmaps_required n) * 32) mod 2 ^ 32"
    by (simp only: new_shm_counts stored_num_locks_unat)
  also have "\<dots> \<le> unat (bitmaps_required n) * 32" by (rule mod_less_eq_dividend)
  finally show ?thesis
    by (simp add: groups_cover_locks_def new_shm_counts BITMAP_SIZE_def)
qed

lemma setup_lock_shm_64:
  "setup_lock_shm gnu_os (Ptr ''/libpod_lock'') 64 (Ptr 0) =
     (Ptr (new_shm 2), Ptr 0,
      gnu_os\<lparr>shm_objects := (shm_objects gnu_os)(''/libpod_lock'' := Some (new_shm 2)),
             mappings := mappings gnu_os + 1\<rparr>)"
proof -
  have "setup_lock_shm gnu_os (Ptr ''/libpod_lock'') 64 (Ptr 0) =
     (Ptr (new_shm (bitmaps_required 64)), Ptr 0,
      gnu_os\<lparr>shm_objects := (shm_objects gnu_os)
               (''/libpod_lock'' := Some (new_shm (bitmaps_required 64))),
             mappings := mappings gnu_os + 1\<rparr>)"
    by (rule setup_lock_shm_created) (simp_all add: gnu_accepts_plain)
  then show ?thesis by (simp only: bitmaps_required_examples)
qed

lemma setup_lock_shm_wrapped:
  "setup_lock_shm gnu_os (Ptr ''/libpod_lock'') 0xFFFFFFFF (Ptr 0) =
     (Ptr (new_shm 0x8000000), Ptr 0,
      gnu_os\<lparr>shm_objects := (shm_objects gnu_os)(''/libpod_lock'' := Some (new_shm 0x8000000)),
             mappings := mappings gnu_os + 1\<rparr>)"
proof -
  have "setup_lock_shm gnu_os (Ptr ''/libpod_lock'') 0xFFFFFFFF (Ptr 0) =
     (Ptr (new_shm (bitmaps_required 0xFFFFFFFF)), Ptr 0,
      gnu_os\<lparr>shm_objects := (shm_objects gnu_os)
               (''/libpod_lock'' := Some (new_shm (bitmaps_required 0xFFFFFFFF))),
             mappings := mappings gnu_os + 1\<rparr>)"
    by (rule setup_lock_shm_created) (simp_all add: gnu_accepts_plain)
  then show ?thesis by (simp only: bitmaps_required_examples)
qed

text \<open>
  Claim C3, at the request \<^verbatim>\<open>num_locks = 4294967295\<close>: every system call succeeds and
  \<^verbatim>\<open>setup_lock_shm\<close> returns a segment whose \<^verbatim>\<open>num_bitmaps\<close> is \<open>2^27\<close>, the rounded-up
  quotient, and whose \<^verbatim>\<open>num_locks\<close> is 0: the product \<open>2^27 * 32 = 2^32\<close> does not fit
  the 32-bit field. The stored count is below the requested one, and the two counts of
  the header no longer agree.
\<close>

theorem setup_lock_shm_count_wraps:
  "setup_lock_shm gnu_os (Ptr ''/libpod_lock'') 0xFFFFFFFF (Ptr 0) =
     (Ptr (new_shm 0x8000000), Ptr 0,
      gnu_os\<lparr>shm_objects := (shm_objects gnu_os)(''/libpod_lock'' := Some (new_shm 0x8000000)),
             mappings := mappings gnu_os + 1\<rparr>)
   \<and> num_bitmaps (new_shm 0x8000000) = 0x8000000
   \<and> num_locks (new_shm 0x8000000) = 0
   \<and> num_locks (new_shm 0x8000000) < 0xFFFFFFFF
   \<and> \<not> lock_count_invariant (new_shm 0x8000000)"
  using setup_lock_shm_wrapped
  by (simp add: num_locks_examples new_shm_counts(1) lock_count_invariant_def BITMAP_SIZE_def)

lemma setup_lock_shm_counts:
  "unat (num_bitmaps (new_shm (bitmaps_required n))) = (unat n + 31) div 32
   \<and> unat (num_locks (new_shm (bitmaps_required n))) = ((unat n + 31) div 32 * 32) mod 2 ^ 32
   \<and> (unat n \<le> 2 ^ 32 - 32 \<longrightarrow>
        unat (num_locks (new_shm (bitmaps_required n))) = (unat n + 31) div 32 * 32
        \<and> unat n \<le> unat (num_locks (new_shm (bitmaps_required n)))
        \<and> lock_count_invariant (new_shm (bitmaps_required n)))"
proof (intro conjI impI)
  show b: "unat (num_bitmaps (new_shm (bitmaps_required n))) = (unat n + 31) div 32"
    by (simp add: new_shm_counts bitmaps_required_unat)
  show l: "unat (num_locks (new_shm (bitmaps_required n)))
      = ((unat n + 31) div 32 * 32) mod 2 ^ 32"
    by (simp only: new_shm_counts stored_num_locks_unat bitmaps_required_unat)
  assume le: "unat n \<le> 2 ^ 32 - 32"
  have up: "unat n \<le> (unat n + 31) div 32 * 32"
  proof -
    have "unat n + 31 = (unat n + 31) div 32 * 32 + (unat n + 31) mod 32" by simp
    moreover have "(unat n + 31) mod 32 < 32" by simp
    ultimately show ?thesis by linarith
  qed
  have "(unat n + 31) div 32 * 32 \<le> unat n + 31" by simp
  with le have lt: "(unat n + 31) div 32 * 32 < 2 ^ 32" by simp
  with l show e: "unat (num_locks (new_shm (bitmaps_required n))) = (unat n + 31) div 32 * 32"
    by (simp only: mod_less)
  from e up show "unat n \<le> unat (num_locks (new_shm (bitmaps_required n)))" by simp
  from e b show "lock_count_invariant (new_shm (bitmaps_required n))"
    by (simp add: lock_count_invariant_def BITMAP_SIZE_def)
qed

lemma ucast_eq_unat:
  "((ucast (a :: 32 word) :: 64 word) = b) = (unat a = unat b)"
proof -
  have "unat a < 2 ^ 32" using unsigned_less [of a] by simp
  then have "unat a < 2 ^ 64" by simp
  then have "take_bit 64 (unat a) = unat a" by (rule take_bit_nat_eq_self)
  then have "unat (ucast a :: 64 word) = unat a" by (simp add: unsigned_ucast_eq)
  then show ?thesis by (metis word_unat_eq_iff)
qed

lemma open_lock_shm_existing:
  assumes n: "n \<noteq> 0"
    and name: "shm_name_errno os name = 0" and obj: "shm_objects os name = Some shm"
    and sys: "mmap_errno os = 0"
  shows "open_lock_shm os (Ptr name) n (Ptr ec) =
           (if magic shm \<noteq> MAGIC then (NULL, Ptr (- EBADF), os)
            else if unat (num_locks shm) \<noteq> (unat n + 31) div 32 * 32
            then (NULL, Ptr (- ERANGE), os)
            else (Ptr shm, Ptr ec, os\<lparr>mappings := mappings os + 1\<rparr>))"
  using assms
  by (simp add: open_lock_shm_def shm_open_def Let_def close_fd_def munmap_def
        ucast_eq_unat bitmaps_times_size_unat bitmaps_required_unat)

text \<open>
  Claim C2, as the code has it. For an existing object under a name the system
  accepts, a request \<open>n > 0\<close> and a mapping that succeeds, \<^verbatim>\<open>open_lock_shm\<close> checks the
  magic first and fails with \<^verbatim>\<open>-EBADF\<close> on a mismatch whatever the counts are; then
  it fails with \<^verbatim>\<open>-ERANGE\<close> when the stored \<^verbatim>\<open>num_locks\<close> differs from \<open>n\<close> rounded up
  to the next multiple of 32 (not from \<open>n\<close> itself); otherwise it returns the segment
  and leaves \<^verbatim>\<open>*error_code\<close> alone. On either failure it returns \<^verbatim>\<open>NULL\<close> and the
  system is as before the call: the descriptor is closed and the mapping removed.
\<close>

theorem open_lock_shm_validates:
  assumes "n \<noteq> 0"
    and "shm_name_errno os name = 0" and "shm_objects os name = Some shm"
    and "mmap_errno os = 0"
  shows "open_lock_shm os (Ptr name) n (Ptr ec) =
           (if magic shm \<noteq> MAGIC then (NULL, Ptr (- EBADF), os)
            else if unat (num_locks shm) \<noteq> (unat n + 31) div 32 * 32
            then (NULL, Ptr (- ERANGE), os)
            else (Ptr shm, Ptr ec, os\<lparr>mappings := mappings os + 1\<rparr>))"
  using assms by (rule open_lock_shm_existing)

lemma os_after_setup_gnu:
  "os_after_setup gnu_os ''/libpod_lock'' 5 =
     gnu_os\<lparr>shm_objects := (shm_objects gnu_os)(''/libpod_lock'' := Some (new_shm 1)),
            mappings := mappings gnu_os + 1\<rparr>"
proof -
  have "setup_lock_shm gnu_os (Ptr ''/libpod_lock'') 5 (Ptr 0) =
     (Ptr (new_shm (bitmaps_required 5)), Ptr 0,
      gnu_os\<lparr>shm_objects := (shm_objects gnu_os)
               (''/libpod_lock'' := Some (new_shm (bitmaps_required 5))),
             mappings := mappings gnu_os + 1\<rparr>)"
    by (rule setup_lock_shm_created) (simp_all add: gnu_accepts_plain)
  then show ?thesis by (simp add: os_after_setup_def bitmaps_required_examples)
qed

theorem open_lock_shm_validates_witness:
  "shm_name_errno (os_after_setup gnu_os ''/libpod_lock'' 5) ''/libpod_lock'' = 0
   \<and> shm_objects (os_after_setup gnu_os ''/libpod_lock'' 5) ''/libpod_lock'' = Some (new_shm 1)
   \<and> mmap_errno (os_after_setup gnu_os ''/libpod_lock'' 5) = 0
   \<and> open_lock_shm (os_after_setup gnu_os ''/libpod_lock'' 5) (Ptr ''/libpod_lock'') 32 (Ptr 0)
       = (Ptr (new_shm 1), Ptr 0, (os_after_setup gnu_os ''/libpod_lock'' 5)\<lparr>mappings := 2\<rparr>)
   \<and> open_lock_shm (os_after_setup gnu_os ''/libpod_lock'' 5) (Ptr ''/libpod_lock'') 33 (Ptr 0)
       = (NULL, Ptr (- 34), os_after_setup gnu_os ''/libpod_lock'' 5)
   \<and> open_lock_shm
         ((os_after_setup gnu_os ''/libpod_lock'' 5)
            \<lparr>shm_objects := (\<lambda>path. Some ((new_shm 1)\<lparr>magic := 0\<rparr>))\<rparr>)
         (Ptr ''/libpod_lock'') 33 (Ptr 0)
       = (NULL, Ptr (- 9), (os_after_setup gnu_os ''/libpod_lock'' 5)
            \<lparr>shm_objects := (\<lambda>path. Some ((new_shm 1)\<lparr>magic := 0\<rparr>))\<rparr>)"
proof -
  define os1 where "os1 = os_after_setup gnu_os ''/libpod_lock'' 5"
  define os2 where "os2 = os1\<lparr>shm_objects := (\<lambda>path. Some ((new_shm 1)\<lparr>magic := 0\<rparr>))\<rparr>"
  have a: "shm_name_errno os1 ''/libpod_lock'' = 0"
    and b: "shm_objects os1 ''/libpod_lock'' = Some (new_shm 1)"
    and c: "mmap_errno os1 = 0" and m: "mappings os1 = 1"
    by (simp_all add: os1_def os_after_setup_gnu gnu_accepts_plain)
  have a2: "shm_name_errno os2 ''/libpod_lock'' = 0"
    and b2: "shm_objects os2 ''/libpod_lock'' = Some ((new_shm 1)\<lparr>magic := 0\<rparr>)"
    and c2: "mmap_errno os2 = 0"
    using a c by (simp_all add: os2_def)
  have n32: "(32 :: 32 word) \<noteq> 0" and n33: "(33 :: 32 word) \<noteq> 0" by simp_all
  have o32: "open_lock_shm os1 (Ptr ''/libpod_lock'') 32 (Ptr 0)
      = (Ptr (new_shm 1), Ptr 0, os1\<lparr>mappings := 2\<rparr>)"
    using open_lock_shm_validates [OF n32 a b c, of 0] m
    by (simp add: new_shm_counts(3) num_locks_examples)
  have o33: "open_lock_shm os1 (Ptr ''/libpod_lock'') 33 (Ptr 0) = (NULL, Ptr (- 34), os1)"
    using open_lock_shm_validates [OF n33 a b c, of 0]
    by (simp add: new_shm_counts(3) num_locks_examples ERANGE_def)
  have obad: "open_lock_shm os2 (Ptr ''/libpod_lock'') 33 (Ptr 0) = (NULL, Ptr (- 9), os2)"
    using open_lock_shm_validates [OF n33 a2 b2 c2, of 0]
    by (simp add: MAGIC_def EBADF_def)
  from a b c o32 o33 obad show ?thesis unfolding os2_def os1_def by (intro conjI)
qed

text \<open>A segment created for 5 locks stores \<^verbatim>\<open>num_locks = 32\<close>; opening it with the same
  request, 5, succeeds although the stored count is not 5.\<close>

theorem open_lock_shm_exact_counterexample:
  "fst (setup_lock_shm gnu_os (Ptr ''/libpod_lock'') 5 (Ptr 0)) = Ptr (new_shm 1)
   \<and> num_locks (new_shm 1) = 32
   \<and> num_locks (new_shm 1) \<noteq> 5
   \<and> open_lock_shm (os_after_setup gnu_os ''/libpod_lock'' 5) (Ptr ''/libpod_lock'') 5 (Ptr 0)
       = (Ptr (new_shm 1), Ptr 0, (os_after_setup gnu_os ''/libpod_lock'' 5)\<lparr>mappings := 2\<rparr>)"
proof -
  define os1 where "os1 = os_after_setup gnu_os ''/libpod_lock'' 5"
  have a: "shm_name_errno os1 ''/libpod_lock'' = 0"
    and b: "shm_objects os1 ''/libpod_lock'' = Some (new_shm 1)"
    and c: "mmap_errno os1 = 0" and m: "mappings os1 = 1"
    by (simp_all add: os1_def os_after_setup_gnu gnu_accepts_plain)
  have n5: "(5 :: 32 word) \<noteq> 0" by simp
  have s: "setup_lock_shm gnu_os (Ptr ''/libpod_lock'') 5 (Ptr 0) =
     (Ptr (new_shm (bitmaps_required 5)), Ptr 0,
      gnu_os\<lparr>shm_objects := (shm_objects gnu_os)
               (''/libpod_lock'' := Some (new_shm (bitmaps_required 5))),
             mappings := mappings gnu_os + 1\<rparr>)"
    by (rule setup_lock_shm_created) (simp_all add: gnu_accepts_plain)
  have o5: "open_lock_shm os1 (Ptr ''/libpod_lock'') 5 (Ptr 0)
      = (Ptr (new_shm 1), Ptr 0, os1\<lparr>mappings := 2\<rparr>)"
    using open_lock_shm_existing [OF n5 a b c, of 0] m
    by (simp add: new_shm_counts(3) num_locks_examples)
  from s o5 show ?thesis
    unfolding os1_def by (simp add: bitmaps_required_examples num_locks_examples)
qed

text \<open>
  Claim C7, as the code has it. \<^verbatim>\<open>setup_lock_shm\<close> itself rejects a request for 0 locks
  and a null path with \<^verbatim>\<open>-EINVAL\<close>, the system untouched. It does not look at the form
  of a name: the name goes to \<^verbatim>\<open>shm_open\<close> as it is, and a name the system refuses makes
  the call fail with the system's error number, the system untouched as well.
\<close>

theorem setup_lock_shm_rejects:
  "setup_lock_shm os path 0 (Ptr ec) = (NULL, Ptr (- EINVAL), os)
   \<and> setup_lock_shm os NULL n (Ptr ec) = (NULL, Ptr (- EINVAL), os)
   \<and> (n \<noteq> 0 \<and> shm_name_errno os name \<noteq> 0 \<longrightarrow>
        setup_lock_shm os (Ptr name) n (Ptr ec) = (NULL, Ptr (- shm_name_errno os name), os))"
  by (simp add: setup_lock_shm_def shm_open_def Let_def)

theorem setup_lock_shm_rejects_witness:
  "(32 :: 32 word) \<noteq> 0 \<and> shm_name_errno gnu_os ''/libpod/lock'' \<noteq> 0
   \<and> setup_lock_shm gnu_os (Ptr ''/libpod/lock'') 32 (Ptr 0) = (NULL, Ptr (- 22), gnu_os)
   \<and> setup_lock_shm gnu_os (Ptr ''/libpod_lock'') 0 (Ptr 0) = (NULL, Ptr (- 22), gnu_os)
   \<and> setup_lock_shm gnu_os NULL 32 (Ptr 0) = (NULL, Ptr (- 22), gnu_os)"
  using setup_lock_shm_rejects [of gnu_os "Ptr ''/libpod_lock''" 0 32 "''/libpod/lock''"]
  by (simp add: gnu_refuses_inner_slash EINVAL_def)

text \<open>On a system that judges names as the GNU C library does, a name with no leading
  separator and a name with two are accepted, and the segment is created.\<close>

theorem setup_lock_shm_name_counterexample:
  "hd ''libpod_lock'' \<noteq> CHR ''/''
   \<and> fst (setup_lock_shm gnu_os (Ptr ''libpod_lock'') 32 (Ptr 0)) = Ptr (new_shm 1)
   \<and> shm_objects (os_after_setup gnu_os ''libpod_lock'' 32) ''libpod_lock'' = Some (new_shm 1)
   \<and> take 2 ''//libpod_lock'' = ''//''
   \<and> fst (setup_lock_shm gnu_os (Ptr ''//libpod_lock'') 32 (Ptr 0)) = Ptr (new_shm 1)"
proof -
  have a: "setup_lock_shm gnu_os (Ptr ''libpod_lock'') 32 (Ptr 0) =
     (Ptr (new_shm (bitmaps_required 32)), Ptr 0,
      gnu_os\<lparr>shm_objects := (shm_objects gnu_os)
               (''libpod_lock'' := Some (new_shm (bitmaps_required 32))),
             mappings := mappings gnu_os + 1\<rparr>)"
    by (rule setup_lock_shm_created) (simp_all add: gnu_accepts_no_slash)
  have b: "setup_lock_shm gnu_os (Ptr ''//libpod_lock'') 32 (Ptr 0) =
     (Ptr (new_shm (bitmaps_required 32)), Ptr 0,
      gnu_os\<lparr>shm_objects := (shm_objects gnu_os)
               (''//libpod_lock'' := Some (new_shm (bitmaps_required 32))),
             mappings := mappings gnu_os + 1\<rparr>)"
    by (rule setup_lock_shm_created) (simp_all add: gnu_accepts_two_slashes)
  from a b show ?thesis
    by (simp add: os_after_setup_def bitmaps_required_examples)
qed

section \<open>Allocation: the first free index\<close>

lemma test_map_clear_iff:
  "n < 32 \<Longrightarrow> (push_bit n 1 AND (bm :: bitmap_t) = 0) = (\<not> bit bm n)"
  by (subst bit_eq_iff) (auto simp: bit_and_iff bit_exp_iff)

lemma test_map_nonzero:
  "n < 32 \<Longrightarrow> (push_bit n 1 :: bitmap_t) \<noteq> 0"
  by (auto simp: bit_eq_iff bit_exp_iff intro!: exI [of _ n])

lemma test_map_shift:
  "push_bit 1 (push_bit n 1 :: bitmap_t) = push_bit (Suc n) 1"
  by (simp add: push_bit_push_bit del: push_bit_of_1)

lemma allocate_semaphore_bits_found:
  assumes "n \<le> p" and "p < 32" and "\<not> bit bm p"
    and "\<forall>k. n \<le> k \<and> k < p \<longrightarrow> bit bm k"
  shows "allocate_semaphore_bits bm (push_bit n 1) n = Some (push_bit p 1, p)"
  using assms
proof (induction "p - n" arbitrary: n)
  case 0
  then have "n = p" by simp
  with 0 show ?case
    by (subst allocate_semaphore_bits.simps)
       (simp add: test_map_clear_iff test_map_nonzero del: push_bit_of_1)
next
  case (Suc d)
  then have lt: "n < p" and n32: "n < 32" by simp_all
  with Suc.prems have set: "bit bm n" by simp
  have "allocate_semaphore_bits bm (push_bit (Suc n) 1) (Suc n) = Some (push_bit p 1, p)"
    using Suc.hyps(2) Suc.prems lt by (intro Suc.hyps(1)) auto
  with set n32 show ?case
    by (subst allocate_semaphore_bits.simps)
       (simp add: test_map_clear_iff test_map_nonzero test_map_shift del: push_bit_of_1)
qed

lemma bitmap_not_full:
  "((bm :: bitmap_t) \<noteq> 0xFFFFFFFF) = (\<exists>p<32. \<not> bit bm p)"
proof -
  have "(0xFFFFFFFF :: bitmap_t) = - 1" by simp
  then show ?thesis
    by (auto simp: bit_eq_iff bit_minus_1_iff simp del: word_eq_numeral_iff_iszero)
qed

lemma allocate_semaphore_groups_found:
  assumes "i \<le> g" and "g < unat (num_bitmaps s)"
    and "\<forall>k. i \<le> k \<and> k < g \<longrightarrow> bitmap (locks s k) = 0xFFFFFFFF"
    and "p < 32" and "\<not> bit (bitmap (locks s g)) p"
    and "\<forall>k<p. bit (bitmap (locks s g)) k"
  shows "allocate_semaphore_groups s i =
           Some (int (32 * g + p), store_bitmap s g (bitmap (locks s g) OR push_bit p 1))"
  using assms
proof (induction "g - i" arbitrary: i)
  case 0
  then have ig: "i = g" by simp
  from 0 have nf: "bitmap (locks s g) \<noteq> 0xFFFFFFFF"
    unfolding bitmap_not_full by blast
  from 0 have "allocate_semaphore_bits (bitmap (locks s g)) (push_bit 0 1) 0 = Some (push_bit p 1, p)"
    by (intro allocate_semaphore_bits_found) auto
  then have "allocate_semaphore_bits (bitmap (locks s g)) 1 0 = Some (push_bit p 1, p)"
    by simp
  with 0 ig nf show ?case
    by (subst allocate_semaphore_groups.simps) (simp add: BITMAP_SIZE_def del: push_bit_of_1)
next
  case (Suc d)
  then have lt: "i < g" by simp
  with Suc.prems have full: "bitmap (locks s i) = 0xFFFFFFFF" by simp
  have "allocate_semaphore_groups s (Suc i) =
      Some (int (32 * g + p), store_bitmap s g (bitmap (locks s g) OR push_bit p 1))"
    using Suc.hyps(2) Suc.prems lt by (intro Suc.hyps(1)) auto
  with full lt Suc.prems(2) show ?case
    by (subst allocate_semaphore_groups.simps) (simp del: push_bit_of_1)
qed

lemma allocate_semaphore_groups_full:
  assumes "\<forall>k. i \<le> k \<and> k < unat (num_bitmaps s) \<longrightarrow> bitmap (locks s k) = 0xFFFFFFFF"
  shows "allocate_semaphore_groups s i = None"
  using assms
proof (induction "unat (num_bitmaps s) - i" arbitrary: i)
  case 0
  then show ?case by (subst allocate_semaphore_groups.simps) simp
next
  case (Suc d)
  then have "i < unat (num_bitmaps s)" by simp
  moreover from this Suc.prems have "bitmap (locks s i) = 0xFFFFFFFF" by simp
  moreover have "allocate_semaphore_groups s (Suc i) = None"
    using Suc.hyps(2) Suc.prems by (intro Suc.hyps(1)) auto
  ultimately show ?case by (subst allocate_semaphore_groups.simps) simp
qed

lemma segment_lock_store_bitmap [simp]:
  "segment_lock (store_bitmap s g v) = segment_lock s"
  "num_bitmaps (store_bitmap s g v) = num_bitmaps s"
  "magic (store_bitmap s g v) = magic s"
  "unused (store_bitmap s g v) = unused s"
  by (simp_all add: store_bitmap_def)

lemma store_bitmap_segment_lock:
  "store_bitmap (s\<lparr>segment_lock := m\<rparr>) g v = (store_bitmap s g v)\<lparr>segment_lock := m\<rparr>"
  by (simp add: store_bitmap_def)

lemma bitmap_store_bitmap [simp]:
  "bitmap (locks (store_bitmap s g v) k) = (if k = g then v else bitmap (locks s k))"
  by (simp add: store_bitmap_def)

lemma allocate_semaphore_found:
  assumes t: "take_mutex self (segment_lock s) False = Some (0, m1)"
    and g: "g < unat (num_bitmaps s)"
    and full: "\<forall>k<g. bitmap (locks s k) = 0xFFFFFFFF"
    and p: "p < 32" and clear: "\<not> bit (bitmap (locks s g)) p"
    and set: "\<forall>k<p. bit (bitmap (locks s g)) k"
  shows "allocate_semaphore self (Ptr s) =
           Some (int (32 * g + p),
                 Ptr ((store_bitmap s g (bitmap (locks s g) OR push_bit p 1))
                        \<lparr>segment_lock := m1\<lparr>mstate := Unlocked\<rparr>\<rparr>))"
proof -
  let ?s1 = "s\<lparr>segment_lock := m1\<rparr>"
  have "allocate_semaphore_groups ?s1 0 =
      Some (int (32 * g + p), store_bitmap ?s1 g (bitmap (locks ?s1 g) OR push_bit p 1))"
    using g full p clear set by (intro allocate_semaphore_groups_found) auto
  then show ?thesis
    using t release_after_take [OF t]
    by (simp add: allocate_semaphore_def store_bitmap_segment_lock del: push_bit_of_1)
qed

lemma allocate_semaphore_full:
  assumes t: "take_mutex self (segment_lock s) False = Some (0, m1)"
    and full: "\<forall>k<unat (num_bitmaps s). bitmap (locks s k) = 0xFFFFFFFF"
  shows "allocate_semaphore self (Ptr s) =
           Some (- ENOSPC, Ptr (s\<lparr>segment_lock := m1\<lparr>mstate := Unlocked\<rparr>\<rparr>))"
proof -
  let ?s1 = "s\<lparr>segment_lock := m1\<rparr>"
  have "allocate_semaphore_groups ?s1 0 = None"
    using full by (intro allocate_semaphore_groups_full) auto
  then show ?thesis
    using t release_after_take [OF t]
    by (simp add: allocate_semaphore_def)
qed

lemma mask_full: "32 \<le> n \<Longrightarrow> (mask n :: bitmap_t) = 0xFFFFFFFF"
proof -
  assume "32 \<le> n"
  then have "(mask n :: bitmap_t) = - 1"
    by (subst bit_eq_iff) (auto simp: bit_mask_iff)
  then show ?thesis by simp
qed

lemma filled_shm_0: "filled_shm 0 = new_shm 2"
  by (simp add: filled_shm_def new_shm_def zero_shm_def)

lemma filled_shm_fields [simp]:
  "segment_lock (filled_shm k) = pthread_mutex_init"
  "num_bitmaps (filled_shm k) = 2"
  "bitmap (locks (filled_shm k) g) = mask (k - 32 * g)"
  by (simp_all add: filled_shm_def new_shm_def)

lemma take_mutex_init:
  "take_mutex self pthread_mutex_init False =
     Some (0, pthread_mutex_init\<lparr>mstate := Locked self\<rparr>)"
  by (simp add: take_mutex_eq pthread_mutex_init_def)

lemma filled_shm_step:
  assumes "k < 64"
  shows "allocate_semaphore self (Ptr (filled_shm k)) = Some (int k, Ptr (filled_shm (Suc k)))"
proof -
  define g where "g = k div 32"
  define p where "p = k mod 32"
  have k: "k = 32 * g + p" by (simp add: g_def p_def)
  have g2: "g < 2" using assms by (simp add: g_def)
  have p32: "p < 32" by (simp add: p_def)
  have kp: "k - 32 * g = p" using k by simp
  have a: "allocate_semaphore self (Ptr (filled_shm k)) =
      Some (int (32 * g + p),
            Ptr ((store_bitmap (filled_shm k) g (bitmap (locks (filled_shm k) g) OR push_bit p 1))
                    \<lparr>segment_lock := pthread_mutex_init\<lparr>mstate := Locked self\<rparr>\<lparr>mstate := Unlocked\<rparr>\<rparr>))"
  proof (rule allocate_semaphore_found)
    show "take_mutex self (segment_lock (filled_shm k)) False =
        Some (0, pthread_mutex_init\<lparr>mstate := Locked self\<rparr>)"
      by (simp add: take_mutex_init)
    show "g < unat (num_bitmaps (filled_shm k))" using g2 by simp
    show "\<forall>j<g. bitmap (locks (filled_shm k) j) = 0xFFFFFFFF"
    proof (intro allI impI)
      fix j assume "j < g"
      then have "32 \<le> k - 32 * j" using k by simp
      then show "bitmap (locks (filled_shm k) j) = 0xFFFFFFFF"
        by (simp add: mask_full del: word_eq_numeral_iff_iszero)
    qed
    show "p < 32" by (rule p32)
    show "\<not> bit (bitmap (locks (filled_shm k) g)) p"
      by (simp add: kp bit_mask_iff)
    show "\<forall>j<p. bit (bitmap (locks (filled_shm k) g)) j"
      using p32 by (simp add: kp bit_mask_iff)
  qed
  have m: "pthread_mutex_init\<lparr>mstate := Locked self\<rparr>\<lparr>mstate := Unlocked\<rparr> = pthread_mutex_init"
    by (simp add: pthread_mutex_init_def)
  have b: "(\<lambda>j. if j = g then mask p OR push_bit p 1 else (mask (k - 32 * j) :: bitmap_t))
      = (\<lambda>j. mask (Suc k - 32 * j))"
  proof
    fix j
    consider "j = g" | "j < g" | "g < j" by linarith
    then show "(if j = g then mask p OR push_bit p 1 else (mask (k - 32 * j) :: bitmap_t))
        = mask (Suc k - 32 * j)"
    proof cases
      case 1
      then have "Suc k - 32 * j = Suc p" using k by simp
      with 1 show ?thesis by (simp add: mask_Suc_exp or.commute)
    next
      case 2
      then have "32 \<le> k - 32 * j" and "32 \<le> Suc k - 32 * j" using k by simp_all
      with 2 show ?thesis by (simp add: mask_full del: word_eq_numeral_iff_iszero)
    next
      case 3
      then have "k - 32 * j = 0" and "Suc k - 32 * j = 0" using k p32 by simp_all
      with 3 show ?thesis by simp
    qed
  qed
  have "(store_bitmap (filled_shm k) g (bitmap (locks (filled_shm k) g) OR push_bit p 1))
          \<lparr>segment_lock := pthread_mutex_init\<rparr> = filled_shm (Suc k)"
  proof -
    have b1: "mask p OR push_bit p 1 = (mask (Suc k - 32 * g) :: bitmap_t)"
      using b [THEN fun_cong, of g] by simp
    have b2: "mask (k - 32 * j) = (mask (Suc k - 32 * j) :: bitmap_t)" if "j \<noteq> g" for j
      using b [THEN fun_cong, of j] that by simp
    show ?thesis
      by (simp add: filled_shm_def store_bitmap_def new_shm_def zero_shm_def kp fun_eq_iff
            b1 b2 del: push_bit_of_1 mask_Suc_exp)
  qed
  with a m k show ?thesis by simp
qed

lemma filled_shm_full:
  "allocate_semaphore self (Ptr (filled_shm 64)) = Some (- ENOSPC, Ptr (filled_shm 64))"
proof -
  have "allocate_semaphore self (Ptr (filled_shm 64)) =
      Some (- ENOSPC, Ptr ((filled_shm 64)
        \<lparr>segment_lock := pthread_mutex_init\<lparr>mstate := Locked self\<rparr>\<lparr>mstate := Unlocked\<rparr>\<rparr>))"
  proof (rule allocate_semaphore_full)
    show "take_mutex self (segment_lock (filled_shm 64)) False =
        Some (0, pthread_mutex_init\<lparr>mstate := Locked self\<rparr>)"
      by (simp add: take_mutex_init)
    show "\<forall>j<unat (num_bitmaps (filled_shm 64)). bitmap (locks (filled_shm 64) j) = 0xFFFFFFFF"
    proof (intro allI impI)
      fix j assume "j < unat (num_bitmaps (filled_shm 64))"
      then have "32 \<le> 64 - 32 * j" by simp
      then show "bitmap (locks (filled_shm 64) j) = 0xFFFFFFFF"
        by (simp add: mask_full del: word_eq_numeral_iff_iszero)
    qed
  qed
  moreover have "(filled_shm 64)\<lparr>segment_lock := pthread_mutex_init\<rparr> = filled_shm 64"
    by (simp add: filled_shm_def new_shm_def)
  ultimately show ?thesis by (simp add: pthread_mutex_init_def)
qed

lemma allocate_repeatedly_filled:
  "k + n \<le> 64 \<Longrightarrow>
     allocate_repeatedly self n (Ptr (filled_shm k)) =
       Some (map int [k..<k + n], Ptr (filled_shm (k + n)))"
proof (induction n arbitrary: k)
  case 0
  then show ?case by simp
next
  case (Suc n)
  then have "k < 64" and "Suc k + n \<le> 64" by simp_all
  with Suc.IH [of "Suc k"] show ?case
    by (simp add: filled_shm_step upt_conv_Cons)
qed

lemma allocate_repeatedly_append:
  "allocate_repeatedly self (n + m) shm =
     (case allocate_repeatedly self n shm of
        None \<Rightarrow> None
      | Some (rs, shm1) \<Rightarrow>
          (case allocate_repeatedly self m shm1 of
             None \<Rightarrow> None
           | Some (rs', shm2) \<Rightarrow> Some (rs @ rs', shm2)))"
  by (induction n arbitrary: shm) (auto split: option.splits)

lemma allocate_run_64:
  "allocate_repeatedly self 65 (Ptr (new_shm 2)) =
     Some (map int [0..<64] @ [- ENOSPC], Ptr (filled_shm 64))"
proof -
  have "allocate_repeatedly self (64 + 1) (Ptr (filled_shm 0)) =
      Some (map int [0..<64] @ [- ENOSPC], Ptr (filled_shm 64))"
    using allocate_repeatedly_filled [of 0 64 self]
    by (subst allocate_repeatedly_append) (simp add: filled_shm_full)
  then show ?thesis by (simp add: filled_shm_0)
qed

lemma first_free_exists:
  assumes "\<not> (\<forall>k<unat (num_bitmaps s). bitmap (locks s k) = 0xFFFFFFFF)"
  shows "\<exists>g p. g < unat (num_bitmaps s) \<and> (\<forall>k<g. bitmap (locks s k) = 0xFFFFFFFF)
           \<and> p < 32 \<and> \<not> bit (bitmap (locks s g)) p \<and> (\<forall>k<p. bit (bitmap (locks s g)) k)"
proof -
  from assms have "\<exists>g. g < unat (num_bitmaps s) \<and> bitmap (locks s g) \<noteq> 0xFFFFFFFF"
    by blast
  then obtain g where g: "g < unat (num_bitmaps s) \<and> bitmap (locks s g) \<noteq> 0xFFFFFFFF"
    and gl: "\<forall>k<g. \<not> (k < unat (num_bitmaps s) \<and> bitmap (locks s k) \<noteq> 0xFFFFFFFF)"
    unfolding exists_least_iff [of "\<lambda>g. g < unat (num_bitmaps s) \<and> bitmap (locks s g) \<noteq> 0xFFFFFFFF"]
    by blast
  from g have "\<exists>p. p < 32 \<and> \<not> bit (bitmap (locks s g)) p"
    unfolding bitmap_not_full by blast
  then obtain p where p: "p < 32 \<and> \<not> bit (bitmap (locks s g)) p"
    and pl: "\<forall>k<p. \<not> (k < 32 \<and> \<not> bit (bitmap (locks s g)) k)"
    unfolding exists_least_iff [of "\<lambda>p. p < 32 \<and> \<not> bit (bitmap (locks s g)) p"]
    by blast
  from g gl have "\<forall>k<g. bitmap (locks s k) = 0xFFFFFFFF"
    by (metis order.strict_trans)
  moreover from p pl have "\<forall>k<p. bit (bitmap (locks s g)) k"
    by (metis order.strict_trans)
  ultimately show ?thesis using g p by blast
qed

text \<open>
  Claim C1. Once the allocation lock is taken, \<^verbatim>\<open>allocate_semaphore\<close> allocates the
  lowest free index: with \<open>g\<close> the first group whose bitmap is not full and \<open>p\<close> the
  first clear bit of that bitmap, it sets that bit, changes nothing else but the
  allocation lock it took and released, and returns \<open>32 * g + p\<close>. When every group's
  bitmap is full it returns \<^verbatim>\<open>-ENOSPC\<close> and changes no bitmap. One of the two is always
  the case. On the segment that \<^verbatim>\<open>setup_lock_shm\<close> creates for 64 locks, 65 successive
  calls return \<open>0, 1, \<dots>, 63\<close> in this order and then \<^verbatim>\<open>-ENOSPC\<close>.
\<close>

theorem allocate_semaphore_lowest_free:
  "(\<forall>m1 g p.
      take_mutex self (segment_lock s) False = Some (0, m1)
      \<and> g < unat (num_bitmaps s) \<and> (\<forall>k<g. bitmap (locks s k) = 0xFFFFFFFF)
      \<and> p < 32 \<and> \<not> bit (bitmap (locks s g)) p \<and> (\<forall>k<p. bit (bitmap (locks s g)) k)
      \<longrightarrow> allocate_semaphore self (Ptr s) =
            Some (int (32 * g + p),
                  Ptr ((store_bitmap s g (bitmap (locks s g) OR push_bit p 1))
                         \<lparr>segment_lock := m1\<lparr>mstate := Unlocked\<rparr>\<rparr>)))
   \<and> (\<forall>m1.
      take_mutex self (segment_lock s) False = Some (0, m1)
      \<and> (\<forall>k<unat (num_bitmaps s). bitmap (locks s k) = 0xFFFFFFFF)
      \<longrightarrow> allocate_semaphore self (Ptr s) =
            Some (- ENOSPC, Ptr (s\<lparr>segment_lock := m1\<lparr>mstate := Unlocked\<rparr>\<rparr>)))
   \<and> ((\<forall>k<unat (num_bitmaps s). bitmap (locks s k) = 0xFFFFFFFF)
      \<or> (\<exists>g p. g < unat (num_bitmaps s) \<and> (\<forall>k<g. bitmap (locks s k) = 0xFFFFFFFF)
           \<and> p < 32 \<and> \<not> bit (bitmap (locks s g)) p \<and> (\<forall>k<p. bit (bitmap (locks s g)) k)))
   \<and> fst (setup_lock_shm gnu_os (Ptr ''/libpod_lock'') 64 (Ptr 0)) = Ptr (new_shm 2)
   \<and> map_option fst (allocate_repeatedly self 65 (Ptr (new_shm 2)))
       = Some (map int [0..<64] @ [- ENOSPC])"
proof (intro conjI allI impI)
  fix m1 g p
  assume "take_mutex self (segment_lock s) False = Some (0, m1)
      \<and> g < unat (num_bitmaps s) \<and> (\<forall>k<g. bitmap (locks s k) = 0xFFFFFFFF)
      \<and> p < 32 \<and> \<not> bit (bitmap (locks s g)) p \<and> (\<forall>k<p. bit (bitmap (locks s g)) k)"
  then show "allocate_semaphore self (Ptr s) =
            Some (int (32 * g + p),
                  Ptr ((store_bitmap s g (bitmap (locks s g) OR push_bit p 1))
                         \<lparr>segment_lock := m1\<lparr>mstate := Unlocked\<rparr>\<rparr>))"
    using allocate_semaphore_found [of self s m1 g p] by blast
next
  fix m1
  assume "take_mutex self (segment_lock s) False = Some (0, m1)
      \<and> (\<forall>k<unat (num_bitmaps s). bitmap (locks s k) = 0xFFFFFFFF)"
  then show "allocate_semaphore self (Ptr s) =
            Some (- ENOSPC, Ptr (s\<lparr>segment_lock := m1\<lparr>mstate := Unlocked\<rparr>\<rparr>))"
    using allocate_semaphore_full [of self s m1] by blast
next
  show "(\<forall>k<unat (num_bitmaps s). bitmap (locks s k) = 0xFFFFFFFF)
      \<or> (\<exists>g p. g < unat (num_bitmaps s) \<and> (\<forall>k<g. bitmap (locks s k) = 0xFFFFFFFF)
           \<and> p < 32 \<and> \<not> bit (bitmap (locks s g)) p \<and> (\<forall>k<p. bit (bitmap (locks s g)) k))"
    using first_free_exists [of s] by blast
next
  show "fst (setup_lock_shm gnu_os (Ptr ''/libpod_lock'') 64 (Ptr 0)) = Ptr (new_shm 2)"
    by (simp only: setup_lock_shm_64 fst_conv)
next
  show "map_option fst (allocate_repeatedly self 65 (Ptr (new_shm 2)))
       = Some (map int [0..<64] @ [- ENOSPC])"
    by (simp only: allocate_run_64 option.map fst_conv)
qed

theorem allocate_semaphore_lowest_free_witness:
  "take_mutex 1 (segment_lock (store_bitmap (store_bitmap (new_shm 2) 0 0xFFFFFFFF) 1 7)) False
     = Some (0, \<lparr>mstate = Locked 1, eagain_pending = 0, consistent_fails = False\<rparr>)
   \<and> (1 :: nat) < unat (num_bitmaps (store_bitmap (store_bitmap (new_shm 2) 0 0xFFFFFFFF) 1 7))
   \<and> bitmap (locks (store_bitmap (store_bitmap (new_shm 2) 0 0xFFFFFFFF) 1 7) 0) = 0xFFFFFFFF
   \<and> bitmap (locks (store_bitmap (store_bitmap (new_shm 2) 0 0xFFFFFFFF) 1 7) 1) = 7
   \<and> map_option fst
        (allocate_semaphore 1 (Ptr (store_bitmap (store_bitmap (new_shm 2) 0 0xFFFFFFFF) 1 7)))
       = Some 35
   \<and> map_option fst
        (allocate_semaphore 1 (Ptr (store_bitmap (store_bitmap (new_shm 2) 0 0xFFFFFFFF) 1 0xFFFFFFFF)))
       = Some (- 28)"
proof -
  define s0 where "s0 = store_bitmap (store_bitmap (new_shm 2) 0 0xFFFFFFFF) 1 7"
  define s1 where "s1 = store_bitmap (store_bitmap (new_shm 2) 0 0xFFFFFFFF) 1 0xFFFFFFFF"
  define m1 where "m1 = \<lparr>mstate = Locked 1, eagain_pending = 0, consistent_fails = False\<rparr>"
  have t0: "take_mutex 1 (segment_lock s0) False = Some (0, m1)"
    by (simp add: s0_def m1_def new_shm_def take_mutex_eq pthread_mutex_init_def)
  have t1: "take_mutex 1 (segment_lock s1) False = Some (0, m1)"
    by (simp add: s1_def m1_def new_shm_def take_mutex_eq pthread_mutex_init_def)
  have n0: "(1 :: nat) < unat (num_bitmaps s0)" by (simp add: s0_def new_shm_def)
  have n1: "unat (num_bitmaps s1) = 2" by (simp add: s1_def new_shm_def)
  have f0: "bitmap (locks s0 0) = 0xFFFFFFFF" by (simp add: s0_def)
  have b0: "bitmap (locks s0 1) = 7" by (simp add: s0_def)
  have b3: "\<not> bit (7 :: bitmap_t) 3" by simp
  have b2: "\<forall>k<3. bit (7 :: bitmap_t) k"
  proof (intro allI impI)
    fix k :: nat assume "k < 3"
    then consider "k = 0" | "k = 1" | "k = 2" by linarith
    then show "bit (7 :: bitmap_t) k" by cases simp_all
  qed
  have f1: "\<forall>k<unat (num_bitmaps s1). bitmap (locks s1 k) = 0xFFFFFFFF"
  proof (intro allI impI)
    fix k assume "k < unat (num_bitmaps s1)"
    then consider "k = 0" | "k = 1" unfolding n1 by linarith
    then show "bitmap (locks s1 k) = 0xFFFFFFFF" by cases (simp_all add: s1_def)
  qed
  have a0: "allocate_semaphore 1 (Ptr s0) =
      Some (int (32 * 1 + 3),
            Ptr ((store_bitmap s0 1 (bitmap (locks s0 1) OR push_bit 3 1))
                         \<lparr>segment_lock := m1\<lparr>mstate := Unlocked\<rparr>\<rparr>))"
    using allocate_semaphore_lowest_free [of 1 s0, THEN conjunct1, rule_format, of m1 1 3]
      t0 n0 f0 b0 b3 b2
    by simp
  have a1: "allocate_semaphore 1 (Ptr s1) =
      Some (- ENOSPC, Ptr (s1\<lparr>segment_lock := m1\<lparr>mstate := Unlocked\<rparr>\<rparr>))"
    using allocate_semaphore_lowest_free [of 1 s1, THEN conjunct2, THEN conjunct1, rule_format, of m1]
      t1 f1
    by simp
  from t0 n0 f0 b0 a0 a1 show ?thesis
    unfolding s0_def s1_def m1_def by (simp add: ENOSPC_def)
qed

section \<open>Freeing\<close>

lemma group_in_range:
  assumes "groups_cover_locks s" and "i < num_locks s"
  shows "unat i div 32 < unat (num_bitmaps s)"
proof -
  from assms(2) have "unat i < unat (num_locks s)" by (simp add: word_less_nat_alt)
  with assms(1) have "unat i < unat (num_bitmaps s) * 32"
    by (simp add: groups_cover_locks_def BITMAP_SIZE_def)
  then show ?thesis by (simp add: less_mult_imp_div_less)
qed

lemma deallocate_semaphore_clear:
  assumes t: "take_mutex self (segment_lock s) False = Some (0, m1)"
    and inv: "groups_cover_locks s" and v: "i < num_locks s"
    and g: "g = unat i div 32" and p: "p = unat i mod 32"
    and c: "\<not> bit (bitmap (locks s g)) p"
  shows "deallocate_semaphore self (Ptr s) i =
           Some (- ENOENT, Ptr (s\<lparr>segment_lock := m1\<lparr>mstate := Unlocked\<rparr>\<rparr>))"
proof -
  have p32: "p < 32" by (simp add: p)
  from v have nv: "\<not> num_locks s \<le> i" by simp
  from group_in_range [OF inv v] have ng: "\<not> unat (num_bitmaps s) \<le> unat i div 32" by simp
  from c p32 have "push_bit p 1 AND bitmap (locks s g) = 0"
    by (simp add: test_map_clear_iff del: push_bit_of_1)
  then show ?thesis
    using t release_after_take [OF t] nv ng g p
    by (simp add: deallocate_semaphore_def BITMAP_SIZE_def Let_def del: push_bit_of_1)
qed

lemma deallocate_semaphore_set:
  assumes t: "take_mutex self (segment_lock s) False = Some (0, m1)"
    and inv: "groups_cover_locks s" and v: "i < num_locks s"
    and g: "g = unat i div 32" and p: "p = unat i mod 32"
    and c: "bit (bitmap (locks s g)) p"
  shows "deallocate_semaphore self (Ptr s) i =
           Some (0, Ptr ((store_bitmap s g (unset_bit p (bitmap (locks s g))))
                           \<lparr>segment_lock := m1\<lparr>mstate := Unlocked\<rparr>\<rparr>))"
proof -
  have p32: "p < 32" by (simp add: p)
  from v have nv: "\<not> num_locks s \<le> i" by simp
  from group_in_range [OF inv v] have ng: "\<not> unat (num_bitmaps s) \<le> unat i div 32" by simp
  from c p32 have "push_bit p 1 AND bitmap (locks s g) \<noteq> 0"
    by (simp add: test_map_clear_iff del: push_bit_of_1)
  then show ?thesis
    using t release_after_take [OF t] nv ng g p
    by (simp add: deallocate_semaphore_def BITMAP_SIZE_def Let_def unset_bit_eq_and_not
          store_bitmap_segment_lock del: push_bit_of_1)
qed

text \<open>
  Claim C8. With the allocation lock taken, on a segment whose groups cover its
  \<^verbatim>\<open>num_locks\<close> and for a valid index \<open>i\<close>: when the allocation bit of \<open>i\<close> is clear, \<^verbatim>\<open>deallocate_semaphore\<close>
  returns \<^verbatim>\<open>-ENOENT\<close> and the segment is as before but for the allocation lock taken and
  released, so no bitmap has changed; when the bit is set, it returns 0 and the one
  change to the bitmaps is that bit \<open>i mod 32\<close> of group \<open>i div 32\<close> is cleared.
\<close>

theorem deallocate_semaphore_checks_bit:
  "(\<forall>m1 g p.
      take_mutex self (segment_lock s) False = Some (0, m1)
      \<and> groups_cover_locks s \<and> i < num_locks s
      \<and> g = unat i div 32 \<and> p = unat i mod 32 \<and> \<not> bit (bitmap (locks s g)) p
      \<longrightarrow> deallocate_semaphore self (Ptr s) i =
            Some (- ENOENT, Ptr (s\<lparr>segment_lock := m1\<lparr>mstate := Unlocked\<rparr>\<rparr>)))
   \<and> (\<forall>m1 g p.
      take_mutex self (segment_lock s) False = Some (0, m1)
      \<and> groups_cover_locks s \<and> i < num_locks s
      \<and> g = unat i div 32 \<and> p = unat i mod 32 \<and> bit (bitmap (locks s g)) p
      \<longrightarrow> deallocate_semaphore self (Ptr s) i =
            Some (0, Ptr ((store_bitmap s g (unset_bit p (bitmap (locks s g))))
                            \<lparr>segment_lock := m1\<lparr>mstate := Unlocked\<rparr>\<rparr>)))"
proof (intro conjI allI impI)
  fix m1 g p
  assume "take_mutex self (segment_lock s) False = Some (0, m1)
      \<and> groups_cover_locks s \<and> i < num_locks s
      \<and> g = unat i div 32 \<and> p = unat i mod 32 \<and> \<not> bit (bitmap (locks s g)) p"
  then show "deallocate_semaphore self (Ptr s) i =
            Some (- ENOENT, Ptr (s\<lparr>segment_lock := m1\<lparr>mstate := Unlocked\<rparr>\<rparr>))"
    using deallocate_semaphore_clear [of self s m1 i g p] by blast
next
  fix m1 g p
  assume "take_mutex self (segment_lock s) False = Some (0, m1)
      \<and> groups_cover_locks s \<and> i < num_locks s
      \<and> g = unat i div 32 \<and> p = unat i mod 32 \<and> bit (bitmap (locks s g)) p"
  then show "deallocate_semaphore self (Ptr s) i =
            Some (0, Ptr ((store_bitmap s g (unset_bit p (bitmap (locks s g))))
                            \<lparr>segment_lock := m1\<lparr>mstate := Unlocked\<rparr>\<rparr>))"
    using deallocate_semaphore_set [of self s m1 i g p] by blast
qed

lemma invariant_covers: "lock_count_invariant s \<Longrightarrow> groups_cover_locks s"
  by (simp add: lock_count_invariant_def groups_cover_locks_def)

lemma new_shm_invariant: "lock_count_invariant (new_shm 2)"
  by (simp add: lock_count_invariant_def new_shm_def bitmaps_times_size_def BITMAP_SIZE_def)

lemma new_shm_cover: "groups_cover_locks (new_shm 2)"
  by (rule invariant_covers [OF new_shm_invariant])

lemma store_bitmap_cover [simp]:
  "groups_cover_locks (store_bitmap s g v) = groups_cover_locks s"
  by (simp add: groups_cover_locks_def)

theorem deallocate_semaphore_checks_bit_witness:
  "take_mutex 1 (segment_lock (store_bitmap (new_shm 2) 1 5)) False
     = Some (0, \<lparr>mstate = Locked 1, eagain_pending = 0, consistent_fails = False\<rparr>)
   \<and> groups_cover_locks (store_bitmap (new_shm 2) 1 5)
   \<and> (34 :: 32 word) < num_locks (store_bitmap (new_shm 2) 1 5)
   \<and> bitmap (locks (store_bitmap (new_shm 2) 1 5) 1) = 5
   \<and> deallocate_semaphore 1 (Ptr (store_bitmap (new_shm 2) 1 5)) 33
       = Some (- 2, Ptr (store_bitmap (new_shm 2) 1 5))
   \<and> deallocate_semaphore 1 (Ptr (store_bitmap (new_shm 2) 1 5)) 34
       = Some (0, Ptr (store_bitmap (new_shm 2) 1 1))"
proof -
  define s0 where "s0 = store_bitmap (new_shm 2) 1 5"
  define m1 where "m1 = \<lparr>mstate = Locked 1, eagain_pending = 0, consistent_fails = False\<rparr>"
  have t: "take_mutex 1 (segment_lock s0) False = Some (0, m1)"
    by (simp add: s0_def m1_def new_shm_def take_mutex_eq pthread_mutex_init_def)
  have inv: "groups_cover_locks s0" by (simp add: s0_def new_shm_cover)
  have n: "num_locks s0 = 64"
    by (simp add: s0_def new_shm_def bitmaps_times_size_def BITMAP_SIZE_def)
  have b: "bitmap (locks s0 1) = 5" by (simp add: s0_def)
  have l: "s0\<lparr>segment_lock := m1\<lparr>mstate := Unlocked\<rparr>\<rparr> = s0"
    by (simp add: s0_def m1_def new_shm_def store_bitmap_def pthread_mutex_init_def)
  have a: "deallocate_semaphore 1 (Ptr s0) 33 =
      Some (- ENOENT, Ptr (s0\<lparr>segment_lock := m1\<lparr>mstate := Unlocked\<rparr>\<rparr>))"
    using deallocate_semaphore_checks_bit [of 1 s0 33, THEN conjunct1, rule_format, of m1 1 1]
      t inv n b by simp
  have c: "deallocate_semaphore 1 (Ptr s0) 34 =
      Some (0, Ptr ((store_bitmap s0 1 (unset_bit 2 (bitmap (locks s0 1))))
                            \<lparr>segment_lock := m1\<lparr>mstate := Unlocked\<rparr>\<rparr>))"
    using deallocate_semaphore_checks_bit [of 1 s0 34, THEN conjunct2, rule_format, of m1 1 2]
      t inv n b by simp
  have u: "unset_bit 2 (5 :: bitmap_t) = 1" by (simp add: unset_bit_eq_and_not)
  have s1: "(store_bitmap s0 1 1)\<lparr>segment_lock := m1\<lparr>mstate := Unlocked\<rparr>\<rparr>
      = store_bitmap (new_shm 2) 1 1"
    by (simp add: s0_def m1_def new_shm_def store_bitmap_def pthread_mutex_init_def)
  from t inv n b a c show ?thesis
    unfolding l b u s1 unfolding s0_def m1_def by (simp add: ENOENT_def)
qed

section \<open>What an allocation operation may change\<close>

lemma take_mutex_cases:
  obtains (blocks) "take_mutex self m b = None"
  | (taken) m1 where "take_mutex self m b = Some (0, m1)"
  | (error) rc m1 where "take_mutex self m b = Some (rc, m1)" and "0 < rc"
  by (cases "mstate m"; cases b; cases "consistent_fails m")
     (auto simp: take_mutex_eq pthread_mutex_consistent_def errno_defs)

lemma set_bit_is_flip:
  "\<not> bit (bm :: bitmap_t) p \<Longrightarrow> bm OR push_bit p 1 = flip_bit p bm"
  by (subst bit_eq_iff) (auto simp: bit_or_iff bit_flip_bit_iff bit_exp_iff)

lemma unset_bit_is_flip:
  "bit (bm :: bitmap_t) p \<Longrightarrow> unset_bit p bm = flip_bit p bm"
  by (subst bit_eq_iff) (auto simp: bit_unset_bit_iff bit_flip_bit_iff)

lemma allocate_semaphore_shape:
  assumes "allocate_semaphore self (Ptr s) = Some (rc, Ptr s')"
  shows "(rc < 0 \<and> (\<exists>m. s' = s\<lparr>segment_lock := m\<rparr>))
       \<or> (\<exists>g p m. rc = int (32 * g + p) \<and> g < unat (num_bitmaps s) \<and> p < 32
             \<and> \<not> bit (bitmap (locks s g)) p
             \<and> s' = (store_bitmap s g (bitmap (locks s g) OR push_bit p 1))\<lparr>segment_lock := m\<rparr>)"
proof (cases rule: take_mutex_cases [of self "segment_lock s" False])
  case blocks
  with assms show ?thesis by (simp add: allocate_semaphore_def)
next
  case (error rc0 m1)
  with assms have "rc = - rc0" and "s' = s\<lparr>segment_lock := m1\<rparr>"
    by (simp_all add: allocate_semaphore_def)
  with error show ?thesis by auto
next
  case (taken m1)
  show ?thesis
  proof (cases "\<forall>k<unat (num_bitmaps s). bitmap (locks s k) = 0xFFFFFFFF")
    case True
    from allocate_semaphore_full [OF taken True] assms
    have "rc = - ENOSPC" and "s' = s\<lparr>segment_lock := m1\<lparr>mstate := Unlocked\<rparr>\<rparr>" by simp_all
    then show ?thesis by (auto simp: ENOSPC_def)
  next
    case False
    from first_free_exists [OF False] obtain g p where
      gp: "g < unat (num_bitmaps s)" "\<forall>k<g. bitmap (locks s k) = 0xFFFFFFFF"
        "p < 32" "\<not> bit (bitmap (locks s g)) p" "\<forall>k<p. bit (bitmap (locks s g)) k"
      by blast
    from allocate_semaphore_found [OF taken gp] assms
    have "rc = int (32 * g + p)"
      and "s' = (store_bitmap s g (bitmap (locks s g) OR push_bit p 1))
                \<lparr>segment_lock := m1\<lparr>mstate := Unlocked\<rparr>\<rparr>"
      by simp_all
    with gp show ?thesis by blast
  qed
qed

lemma allocate_given_semaphore_shape:
  assumes "allocate_given_semaphore self (Ptr s) i = Some (rc, Ptr s')"
  shows "(rc < 0 \<and> (\<exists>m. s' = s\<lparr>segment_lock := m\<rparr>))
       \<or> (rc = 0 \<and> \<not> bit (bitmap (locks s (unat i div 32))) (unat i mod 32)
           \<and> (\<exists>m. s' = (store_bitmap s (unat i div 32)
                 (bitmap (locks s (unat i div 32)) OR push_bit (unat i mod 32) 1))
                   \<lparr>segment_lock := m\<rparr>))"
proof -
  have same: "s = s\<lparr>segment_lock := segment_lock s\<rparr>" by simp
  have p32: "unat i mod 32 < 32" by simp
  show ?thesis
  proof (cases "num_locks s \<le> i \<or> unat (num_bitmaps s) \<le> unat i div 32")
    case True
    with assms have "rc < 0" and "s' = s"
      by (auto simp: allocate_given_semaphore_def BITMAP_SIZE_def Let_def errno_defs
            split: if_splits)
    with same show ?thesis by metis
  next
    case False
    then have valid: "\<not> num_locks s \<le> i" "\<not> unat (num_bitmaps s) \<le> unat i div 32"
      by simp_all
    show ?thesis
    proof (cases rule: take_mutex_cases [of self "segment_lock s" False])
      case blocks
      with assms valid show ?thesis
        by (simp add: allocate_given_semaphore_def BITMAP_SIZE_def Let_def)
    next
      case (error rc0 m1)
      with assms valid have "rc = - rc0" and "s' = s\<lparr>segment_lock := m1\<rparr>"
        by (simp_all add: allocate_given_semaphore_def BITMAP_SIZE_def Let_def)
      with error show ?thesis by auto
    next
      case (taken m1)
      note rel = release_after_take [OF taken]
      show ?thesis
      proof (cases "bit (bitmap (locks s (unat i div 32))) (unat i mod 32)")
        case True
        with p32 have "push_bit (unat i mod 32) 1 AND bitmap (locks s (unat i div 32)) \<noteq> 0"
          by (simp add: test_map_clear_iff del: push_bit_of_1)
        with assms valid taken rel
        have "rc = - EEXIST" and "s' = s\<lparr>segment_lock := m1\<lparr>mstate := Unlocked\<rparr>\<rparr>"
          by (simp_all add: allocate_given_semaphore_def BITMAP_SIZE_def Let_def
                del: push_bit_of_1)
        then show ?thesis by (auto simp: EEXIST_def)
      next
        case False
        with p32 have "push_bit (unat i mod 32) 1 AND bitmap (locks s (unat i div 32)) = 0"
          by (simp add: test_map_clear_iff del: push_bit_of_1)
        with assms valid taken rel
        have "rc = 0" and "s' = (store_bitmap s (unat i div 32)
                 (bitmap (locks s (unat i div 32)) OR push_bit (unat i mod 32) 1))
                   \<lparr>segment_lock := m1\<lparr>mstate := Unlocked\<rparr>\<rparr>"
          by (simp_all add: allocate_given_semaphore_def BITMAP_SIZE_def Let_def
                store_bitmap_segment_lock del: push_bit_of_1)
        with False show ?thesis by blast
      qed
    qed
  qed
qed

lemma deallocate_semaphore_shape:
  assumes "deallocate_semaphore self (Ptr s) i = Some (rc, Ptr s')"
  shows "(rc < 0 \<and> (\<exists>m. s' = s\<lparr>segment_lock := m\<rparr>))
       \<or> (rc = 0 \<and> bit (bitmap (locks s (unat i div 32))) (unat i mod 32)
           \<and> (\<exists>m. s' = (store_bitmap s (unat i div 32)
                 (unset_bit (unat i mod 32) (bitmap (locks s (unat i div 32)))))
                   \<lparr>segment_lock := m\<rparr>))"
proof -
  have same: "s = s\<lparr>segment_lock := segment_lock s\<rparr>" by simp
  have p32: "unat i mod 32 < 32" by simp
  show ?thesis
  proof (cases "num_locks s \<le> i \<or> unat (num_bitmaps s) \<le> unat i div 32")
    case True
    with assms have "rc < 0" and "s' = s"
      by (auto simp: deallocate_semaphore_def BITMAP_SIZE_def Let_def errno_defs
            split: if_splits)
    with same show ?thesis by metis
  next
    case False
    then have valid: "\<not> num_locks s \<le> i" "\<not> unat (num_bitmaps s) \<le> unat i div 32"
      by simp_all
    show ?thesis
    proof (cases rule: take_mutex_cases [of self "segment_lock s" False])
      case blocks
      with assms valid show ?thesis
        by (simp add: deallocate_semaphore_def BITMAP_SIZE_def Let_def)
    next
      case (error rc0 m1)
      with assms valid have "rc = - rc0" and "s' = s\<lparr>segment_lock := m1\<rparr>"
        by (simp_all add: deallocate_semaphore_def BITMAP_SIZE_def Let_def)
      with error show ?thesis by auto
    next
      case (taken m1)
      note rel = release_after_take [OF taken]
      show ?thesis
      proof (cases "bit (bitmap (locks s (unat i div 32))) (unat i mod 32)")
        case False
        with p32 have "push_bit (unat i mod 32) 1 AND bitmap (locks s (unat i div 32)) = 0"
          by (simp add: test_map_clear_iff del: push_bit_of_1)
        with assms valid taken rel
        have "rc = - ENOENT" and "s' = s\<lparr>segment_lock := m1\<lparr>mstate := Unlocked\<rparr>\<rparr>"
          by (simp_all add: deallocate_semaphore_def BITMAP_SIZE_def Let_def
                del: push_bit_of_1)
        then show ?thesis by (auto simp: ENOENT_def)
      next
        case True
        with p32 have "push_bit (unat i mod 32) 1 AND bitmap (locks s (unat i div 32)) \<noteq> 0"
          by (simp add: test_map_clear_iff del: push_bit_of_1)
        with assms valid taken rel
        have "rc = 0" and "s' = (store_bitmap s (unat i div 32)
                 (unset_bit (unat i mod 32) (bitmap (locks s (unat i div 32)))))
                   \<lparr>segment_lock := m1\<lparr>mstate := Unlocked\<rparr>\<rparr>"
          by (simp_all add: deallocate_semaphore_def BITMAP_SIZE_def Let_def
                store_bitmap_segment_lock unset_bit_eq_and_not del: push_bit_of_1)
        with True show ?thesis by blast
      qed
    qed
  qed
qed

lemma allocate_given_semaphore_free:
  assumes t: "take_mutex self (segment_lock s) False = Some (0, m1)"
    and inv: "groups_cover_locks s" and v: "i < num_locks s"
    and g: "g = unat i div 32" and p: "p = unat i mod 32"
    and c: "\<not> bit (bitmap (locks s g)) p"
  shows "allocate_given_semaphore self (Ptr s) i =
           Some (0, Ptr ((store_bitmap s g (bitmap (locks s g) OR push_bit p 1))
                           \<lparr>segment_lock := m1\<lparr>mstate := Unlocked\<rparr>\<rparr>))"
proof -
  have p32: "p < 32" by (simp add: p)
  from v have nv: "\<not> num_locks s \<le> i" by simp
  from group_in_range [OF inv v] have ng: "\<not> unat (num_bitmaps s) \<le> unat i div 32" by simp
  from c p32 have "push_bit p 1 AND bitmap (locks s g) = 0"
    by (simp add: test_map_clear_iff del: push_bit_of_1)
  then show ?thesis
    using t release_after_take [OF t] nv ng g p
    by (simp add: allocate_given_semaphore_def BITMAP_SIZE_def Let_def
          store_bitmap_segment_lock del: push_bit_of_1)
qed

lemma allocate_semaphore_frame:
  assumes "allocate_semaphore self (Ptr s) = Some (rc, Ptr s')"
  shows "header_unchanged s s'
      \<and> (rc < 0 \<longrightarrow> bitmaps_unchanged s s')
      \<and> (0 \<le> rc \<longrightarrow>
           (\<exists>g p. rc = int (32 * g + p) \<and> g < unat (num_bitmaps s) \<and> one_bit_changed s s' g p))
      \<and> (0 \<le> rc \<and> lock_count_invariant s \<longrightarrow> rc < uint (num_locks s))"
  using allocate_semaphore_shape [OF assms]
proof (elim disjE conjE exE)
  fix m assume neg: "rc < 0" and s': "s' = s\<lparr>segment_lock := m\<rparr>"
  from s' have h: "header_unchanged s s'" by simp
  from s' have u: "bitmaps_unchanged s s'" by simp
  from neg have n: "\<not> 0 \<le> rc" by simp
  show ?thesis
  proof (intro conjI impI)
    show "magic s' = magic s" "num_bitmaps s' = num_bitmaps s" "num_locks s' = num_locks s"
      using h by simp_all
    show "bitmaps_unchanged s s'" by (rule u)
    show "\<exists>g p. rc = int (32 * g + p) \<and> g < unat (num_bitmaps s) \<and> one_bit_changed s s' g p"
      if "0 \<le> rc" using that n by simp
    show "rc < uint (num_locks s)" if "0 \<le> rc \<and> lock_count_invariant s"
      using that n by simp
  qed
next
  fix g p m
  assume rc: "rc = int (32 * g + p)" and g: "g < unat (num_bitmaps s)" and p: "p < 32"
    and c: "\<not> bit (bitmap (locks s g)) p"
    and s': "s' = (store_bitmap s g (bitmap (locks s g) OR push_bit p 1))\<lparr>segment_lock := m\<rparr>"
  from s' have h: "header_unchanged s s'" by simp
  have "bitmap (locks s' g) = bitmap (locks s g) OR push_bit p 1"
    unfolding s' by simp
  then have b: "bitmap (locks s' g) = flip_bit p (bitmap (locks s g))"
    by (simp only: set_bit_is_flip [OF c])
  have r: "\<forall>g'. g' \<noteq> g \<longrightarrow> bitmap (locks s' g') = bitmap (locks s g')"
    unfolding s' by simp
  have o: "one_bit_changed s s' g p"
    using p b r by (intro conjI)
  have l: "rc < uint (num_locks s)" if "lock_count_invariant s"
  proof -
    from g p have "32 * g + p < unat (num_bitmaps s) * 32" by simp
    with that have "32 * g + p < unat (num_locks s)"
      by (simp add: lock_count_invariant_def BITMAP_SIZE_def)
    then have "int (32 * g + p) < int (unat (num_locks s))"
      by (simp only: of_nat_less_iff)
    then show ?thesis unfolding rc by (simp only: uint_nat)
  qed
  from rc have n: "\<not> rc < 0" by simp
  show ?thesis
  proof (intro conjI impI)
    show "magic s' = magic s" "num_bitmaps s' = num_bitmaps s" "num_locks s' = num_locks s"
      using h by simp_all
    show "bitmaps_unchanged s s'" if "rc < 0" using that n by simp
    show "\<exists>g p. rc = int (32 * g + p) \<and> g < unat (num_bitmaps s) \<and> one_bit_changed s s' g p"
      using rc g o by blast
    show "rc < uint (num_locks s)" if "0 \<le> rc \<and> lock_count_invariant s"
      using that l by simp
  qed
qed


lemma allocate_given_semaphore_frame:
  assumes "allocate_given_semaphore self (Ptr s) i = Some (rc, Ptr s')"
  shows "header_unchanged s s' \<and> rc \<le> 0
      \<and> (rc < 0 \<longrightarrow> bitmaps_unchanged s s')
      \<and> (rc = 0 \<longrightarrow> one_bit_changed s s' (unat i div 32) (unat i mod 32))"
  using allocate_given_semaphore_shape [OF assms]
proof (elim disjE conjE exE)
  fix m assume neg: "rc < 0" and s': "s' = s\<lparr>segment_lock := m\<rparr>"
  from s' have h: "header_unchanged s s'" by simp
  from s' have u: "bitmaps_unchanged s s'" by simp
  show ?thesis
  proof (intro conjI impI)
    show "magic s' = magic s" "num_bitmaps s' = num_bitmaps s" "num_locks s' = num_locks s"
      using h by simp_all
    show "rc \<le> 0" using neg by simp
    show "bitmaps_unchanged s s'" by (rule u)
    show "unat i mod 32 < 32" by simp
    show "bitmap (locks s' (unat i div 32)) = flip_bit (unat i mod 32) (bitmap (locks s (unat i div 32)))"
      if "rc = 0" using that neg by simp
    show "\<forall>g'. g' \<noteq> unat i div 32 \<longrightarrow> bitmap (locks s' g') = bitmap (locks s g')"
      using u by simp
  qed
next
  fix m
  assume rc: "rc = 0" and c: "\<not> bit (bitmap (locks s (unat i div 32))) (unat i mod 32)"
    and s': "s' = (store_bitmap s (unat i div 32) (bitmap (locks s (unat i div 32)) OR push_bit (unat i mod 32) 1))\<lparr>segment_lock := m\<rparr>"
  from s' have h: "header_unchanged s s'" by simp
  have "bitmap (locks s' (unat i div 32)) = bitmap (locks s (unat i div 32)) OR push_bit (unat i mod 32) 1"
    unfolding s' by simp
  then have b: "bitmap (locks s' (unat i div 32))
      = flip_bit (unat i mod 32) (bitmap (locks s (unat i div 32)))"
    by (simp only: set_bit_is_flip [OF c])
  have r: "\<forall>g'. g' \<noteq> unat i div 32 \<longrightarrow> bitmap (locks s' g') = bitmap (locks s g')"
    unfolding s' by simp
  show ?thesis
  proof (intro conjI impI)
    show "magic s' = magic s" "num_bitmaps s' = num_bitmaps s" "num_locks s' = num_locks s"
      using h by simp_all
    show "rc \<le> 0" using rc by simp
    show "bitmaps_unchanged s s'" if "rc < 0" using that rc by simp
    show "unat i mod 32 < 32" by simp
    show "bitmap (locks s' (unat i div 32)) = flip_bit (unat i mod 32) (bitmap (locks s (unat i div 32)))"
      by (rule b)
    show "\<forall>g'. g' \<noteq> unat i div 32 \<longrightarrow> bitmap (locks s' g') = bitmap (locks s g')"
      by (rule r)
  qed
qed

lemma deallocate_semaphore_frame:
  assumes "deallocate_semaphore self (Ptr s) i = Some (rc, Ptr s')"
  shows "header_unchanged s s' \<and> rc \<le> 0
      \<and> (rc < 0 \<longrightarrow> bitmaps_unchanged s s')
      \<and> (rc = 0 \<longrightarrow> one_bit_changed s s' (unat i div 32) (unat i mod 32))"
  using deallocate_semaphore_shape [OF assms]
proof (elim disjE conjE exE)
  fix m assume neg: "rc < 0" and s': "s' = s\<lparr>segment_lock := m\<rparr>"
  from s' have h: "header_unchanged s s'" by simp
  from s' have u: "bitmaps_unchanged s s'" by simp
  show ?thesis
  proof (intro conjI impI)
    show "magic s' = magic s" "num_bitmaps s' = num_bitmaps s" "num_locks s' = num_locks s"
      using h by simp_all
    show "rc \<le> 0" using neg by simp
    show "bitmaps_unchanged s s'" by (rule u)
    show "unat i mod 32 < 32" by simp
    show "bitmap (locks s' (unat i div 32)) = flip_bit (unat i mod 32) (bitmap (locks s (unat i div 32)))"
      if "rc = 0" using that neg by simp
    show "\<forall>g'. g' \<noteq> unat i div 32 \<longrightarrow> bitmap (locks s' g') = bitmap (locks s g')"
      using u by simp
  qed
next
  fix m
  assume rc: "rc = 0" and c: "bit (bitmap (locks s (unat i div 32))) (unat i mod 32)"
    and s': "s' = (store_bitmap s (unat i div 32) (unset_bit (unat i mod 32) (bitmap (locks s (unat i div 32)))))\<lparr>segment_lock := m\<rparr>"
  from s' have h: "header_unchanged s s'" by simp
  have "bitmap (locks s' (unat i div 32)) = unset_bit (unat i mod 32) (bitmap (locks s (unat i div 32)))"
    unfolding s' by simp
  then have b: "bitmap (locks s' (unat i div 32))
      = flip_bit (unat i mod 32) (bitmap (locks s (unat i div 32)))"
    by (simp only: unset_bit_is_flip [OF c])
  have r: "\<forall>g'. g' \<noteq> unat i div 32 \<longrightarrow> bitmap (locks s' g') = bitmap (locks s g')"
    unfolding s' by simp
  show ?thesis
  proof (intro conjI impI)
    show "magic s' = magic s" "num_bitmaps s' = num_bitmaps s" "num_locks s' = num_locks s"
      using h by simp_all
    show "rc \<le> 0" using rc by simp
    show "bitmaps_unchanged s s'" if "rc < 0" using that rc by simp
    show "unat i mod 32 < 32" by simp
    show "bitmap (locks s' (unat i div 32)) = flip_bit (unat i mod 32) (bitmap (locks s (unat i div 32)))"
      by (rule b)
    show "\<forall>g'. g' \<noteq> unat i div 32 \<longrightarrow> bitmap (locks s' g') = bitmap (locks s g')"
      by (rule r)
  qed
qed

text \<open>
  The frame of the allocation operations. Whatever \<^verbatim>\<open>allocate_semaphore\<close>, \<^verbatim>\<open>allocate_given_semaphore\<close> and
  \<^verbatim>\<open>deallocate_semaphore\<close> return, \<^verbatim>\<open>magic\<close>, \<^verbatim>\<open>num_bitmaps\<close> and \<^verbatim>\<open>num_locks\<close> are as
  before. A call that fails (a negative return value) leaves every bitmap as it was. A
  call that succeeds inverts one bit of the bitmap of one group and leaves every other
  bitmap as it was: for the two calls that take an index, bit \<open>i mod 32\<close> of group
  \<open>i div 32\<close>; for \<^verbatim>\<open>allocate_semaphore\<close>, the bit whose index it returns, in a group
  below \<^verbatim>\<open>num_bitmaps\<close>. On a segment whose \<^verbatim>\<open>num_locks\<close> is \<^verbatim>\<open>num_bitmaps\<close> times 32,
  the index \<^verbatim>\<open>allocate_semaphore\<close> returns is below \<^verbatim>\<open>num_locks\<close>.
\<close>

theorem allocation_frame:
  "(\<forall>rc s'. allocate_semaphore self (Ptr s) = Some (rc, Ptr s') \<longrightarrow>
      header_unchanged s s'
      \<and> (rc < 0 \<longrightarrow> bitmaps_unchanged s s')
      \<and> (0 \<le> rc \<longrightarrow>
           (\<exists>g p. rc = int (32 * g + p) \<and> g < unat (num_bitmaps s) \<and> one_bit_changed s s' g p))
      \<and> (0 \<le> rc \<and> lock_count_invariant s \<longrightarrow> rc < uint (num_locks s)))
   \<and> (\<forall>rc s'. allocate_given_semaphore self (Ptr s) i = Some (rc, Ptr s') \<longrightarrow>
      header_unchanged s s' \<and> rc \<le> 0
      \<and> (rc < 0 \<longrightarrow> bitmaps_unchanged s s')
      \<and> (rc = 0 \<longrightarrow> one_bit_changed s s' (unat i div 32) (unat i mod 32)))
   \<and> (\<forall>rc s'. deallocate_semaphore self (Ptr s) i = Some (rc, Ptr s') \<longrightarrow>
      header_unchanged s s' \<and> rc \<le> 0
      \<and> (rc < 0 \<longrightarrow> bitmaps_unchanged s s')
      \<and> (rc = 0 \<longrightarrow> one_bit_changed s s' (unat i div 32) (unat i mod 32)))"
proof (intro conjI allI)
  fix rc s'
  show "allocate_semaphore self (Ptr s) = Some (rc, Ptr s') \<longrightarrow>
      header_unchanged s s'
      \<and> (rc < 0 \<longrightarrow> bitmaps_unchanged s s')
      \<and> (0 \<le> rc \<longrightarrow>
           (\<exists>g p. rc = int (32 * g + p) \<and> g < unat (num_bitmaps s) \<and> one_bit_changed s s' g p))
      \<and> (0 \<le> rc \<and> lock_count_invariant s \<longrightarrow> rc < uint (num_locks s))"
    by (rule impI) (rule allocate_semaphore_frame)
  show "allocate_given_semaphore self (Ptr s) i = Some (rc, Ptr s') \<longrightarrow>
      header_unchanged s s' \<and> rc \<le> 0
      \<and> (rc < 0 \<longrightarrow> bitmaps_unchanged s s')
      \<and> (rc = 0 \<longrightarrow> one_bit_changed s s' (unat i div 32) (unat i mod 32))"
    by (rule impI) (rule allocate_given_semaphore_frame)
  show "deallocate_semaphore self (Ptr s) i = Some (rc, Ptr s') \<longrightarrow>
      header_unchanged s s' \<and> rc \<le> 0
      \<and> (rc < 0 \<longrightarrow> bitmaps_unchanged s s')
      \<and> (rc = 0 \<longrightarrow> one_bit_changed s s' (unat i div 32) (unat i mod 32))"
    by (rule impI) (rule deallocate_semaphore_frame)
qed


theorem allocation_frame_witness:
  "allocate_semaphore 1 (Ptr (new_shm 2)) = Some (0, Ptr (filled_shm 1))
   \<and> lock_count_invariant (new_shm 2)
   \<and> magic (filled_shm 1) = magic (new_shm 2)
   \<and> num_bitmaps (filled_shm 1) = num_bitmaps (new_shm 2)
   \<and> num_locks (filled_shm 1) = num_locks (new_shm 2)
   \<and> (0 :: int) < uint (num_locks (new_shm 2))
   \<and> (\<exists>g p. one_bit_changed (new_shm 2) (filled_shm 1) g p)
   \<and> (\<exists>s'. allocate_given_semaphore 1 (Ptr (new_shm 2)) 40 = Some (0, Ptr s')
         \<and> one_bit_changed (new_shm 2) s' 1 8)
   \<and> (\<exists>s'. deallocate_semaphore 1 (Ptr (new_shm 2)) 40 = Some (- 2, Ptr s')
         \<and> bitmaps_unchanged (new_shm 2) s')"
proof -
  note T = allocation_frame [of 1 "new_shm 2" 40]
  define m1 where "m1 = pthread_mutex_init\<lparr>mstate := Locked 1\<rparr>"
  have t: "take_mutex 1 (segment_lock (new_shm 2)) False = Some (0, m1)"
    by (simp add: m1_def new_shm_def take_mutex_init)
  have inv: "lock_count_invariant (new_shm 2)" by (rule new_shm_invariant)
  have cov: "groups_cover_locks (new_shm 2)" by (rule new_shm_cover)
  have v: "(40 :: 32 word) < num_locks (new_shm 2)"
    by (simp add: new_shm_def bitmaps_times_size_def BITMAP_SIZE_def)
  have c: "\<not> bit (bitmap (locks (new_shm 2) 1)) 8"
    by (simp add: new_shm_def zero_shm_def)
  have a: "allocate_semaphore 1 (Ptr (new_shm 2)) = Some (0, Ptr (filled_shm 1))"
    using filled_shm_step [of 0 1] by (simp add: filled_shm_0)
  have z: "(0 :: int) \<le> 0" by simp
  note c2 = conjunct2
  note Ta = T [THEN conjunct1, rule_format, OF a]
  note h1 = Ta [THEN conjunct1, THEN conjunct1]
  note h2 = Ta [THEN conjunct1, THEN c2, THEN conjunct1]
  note h3 = Ta [THEN conjunct1, THEN c2, THEN c2]
  note ea = Ta [THEN c2, THEN c2, THEN conjunct1, rule_format, OF z]
  note la = Ta [THEN c2, THEN c2, THEN c2, rule_format, OF conjI [OF z inv]]
  from ea obtain g p where "one_bit_changed (new_shm 2) (filled_shm 1) g p"
    by (elim exE conjE) (rule that, intro conjI)
  then have oa: "\<exists>g p. one_bit_changed (new_shm 2) (filled_shm 1) g p"
    by (intro exI)
  have dm: "unat (40 :: 32 word) div 32 = 1" "unat (40 :: 32 word) mod 32 = 8" by simp_all
  have c': "\<not> bit (bitmap (locks (new_shm 2) (unat (40 :: 32 word) div 32)))
      (unat (40 :: 32 word) mod 32)"
    unfolding dm by (rule c)
  from allocate_given_semaphore_free [OF t cov v refl refl c']
  obtain s2 where g: "allocate_given_semaphore 1 (Ptr (new_shm 2)) 40 = Some (0, Ptr s2)"
    by (rule that)
  note Tg = T [THEN c2, THEN conjunct1, rule_format, OF g]
  note og' = Tg [THEN c2, THEN c2, THEN c2, rule_format, OF refl]
  from og' have og: "one_bit_changed (new_shm 2) s2 1 8" unfolding dm .
  have "- ENOENT = - 2" by (simp add: ENOENT_def)
  with deallocate_semaphore_clear [OF t cov v refl refl c']
  obtain s3 where d: "deallocate_semaphore 1 (Ptr (new_shm 2)) 40 = Some (- 2, Ptr s3)"
    by (simp only:)
  note Td = T [THEN c2, THEN c2, rule_format, OF d]
  have n: "(- 2 :: int) < 0" by simp
  note ud' = Td [THEN c2, THEN c2, THEN conjunct1, rule_format, OF n]
  have ud: "bitmaps_unchanged (new_shm 2) s3" by (rule allI) (rule ud')
  have eg: "\<exists>s'. allocate_given_semaphore 1 (Ptr (new_shm 2)) 40 = Some (0, Ptr s')
         \<and> one_bit_changed (new_shm 2) s' 1 8"
    by (rule exI [of _ s2]) (rule conjI [OF g og])
  have ed: "\<exists>s'. deallocate_semaphore 1 (Ptr (new_shm 2)) 40 = Some (- 2, Ptr s')
         \<and> bitmaps_unchanged (new_shm 2) s'"
    by (rule exI [of _ s3]) (rule conjI [OF d ud])
  from a inv h1 h2 h3 la oa eg ed show ?thesis by (intro conjI)
qed

text \<open>
  Claim C10. The index of a successful \<^verbatim>\<open>allocate_semaphore\<close> is not always below the
  stored \<^verbatim>\<open>num_locks\<close>. \<^verbatim>\<open>allocate_semaphore\<close> scans the \<^verbatim>\<open>num_bitmaps\<close> groups and never
  reads \<^verbatim>\<open>num_locks\<close>. On the segment \<^verbatim>\<open>setup_lock_shm\<close> returns for a request of
  \<open>2\<^sup>3\<^sup>2 - 1\<close> locks, where \<^verbatim>\<open>num_bitmaps\<close> is \<open>2\<^sup>2\<^sup>7\<close> and \<^verbatim>\<open>num_locks\<close> is stored
  as 0, it succeeds with index 0 and sets bit 0 of group 0, while \<^verbatim>\<open>lock_semaphore\<close>,
  \<^verbatim>\<open>try_lock\<close>, \<^verbatim>\<open>deallocate_semaphore\<close> and \<^verbatim>\<open>allocate_given_semaphore\<close> refuse that
  index with \<^verbatim>\<open>-EINVAL\<close>.
\<close>

theorem allocate_semaphore_exceeds_num_locks:
  "fst (setup_lock_shm gnu_os (Ptr ''/libpod_lock'') 0xFFFFFFFF (Ptr 0)) = Ptr (new_shm 0x8000000)
   \<and> num_bitmaps (new_shm 0x8000000) = 0x8000000
   \<and> num_locks (new_shm 0x8000000) = 0
   \<and> (\<exists>s1. allocate_semaphore 1 (Ptr (new_shm 0x8000000)) = Some (0, Ptr s1)
          \<and> num_locks s1 = 0
          \<and> \<not> (0 :: int) < uint (num_locks s1)
          \<and> bit (bitmap (locks s1 0)) 0
          \<and> lock_semaphore 1 (Ptr s1) 0 = Some (- EINVAL, Ptr s1)
          \<and> try_lock 1 (Ptr s1) 0 = Some (- EINVAL, Ptr s1)
          \<and> deallocate_semaphore 1 (Ptr s1) 0 = Some (- EINVAL, Ptr s1))
   \<and> allocate_given_semaphore 1 (Ptr (new_shm 0x8000000)) 0
       = Some (- EINVAL, Ptr (new_shm 0x8000000))"
proof -
  define m1 where "m1 = pthread_mutex_init\<lparr>mstate := Locked 1\<rparr>"
  define s1 where "s1 = (store_bitmap (new_shm 0x8000000) 0
                    (bitmap (locks (new_shm 0x8000000) 0) OR push_bit 0 1))
                   \<lparr>segment_lock := m1\<lparr>mstate := Unlocked\<rparr>\<rparr>"
  have c: "fst (setup_lock_shm gnu_os (Ptr ''/libpod_lock'') 0xFFFFFFFF (Ptr 0))
      = Ptr (new_shm 0x8000000)"
    by (simp only: setup_lock_shm_wrapped fst_conv)
  have b: "num_bitmaps (new_shm 0x8000000) = 0x8000000" by (rule new_shm_counts(1))
  have n: "num_locks (new_shm 0x8000000) = 0" by (simp add: num_locks_examples)
  have t: "take_mutex 1 (segment_lock (new_shm 0x8000000)) False = Some (0, m1)"
    by (simp add: m1_def new_shm_def take_mutex_init)
  have g: "(0 :: nat) < unat (num_bitmaps (new_shm 0x8000000))" by (simp add: b)
  have z: "\<not> bit (bitmap (locks (new_shm 0x8000000) 0)) 0"
    by (simp add: new_shm_def zero_shm_def)
  have "allocate_semaphore 1 (Ptr (new_shm 0x8000000)) = Some (int (32 * 0 + 0), Ptr s1)"
    unfolding s1_def by (rule allocate_semaphore_found [OF t g _ _ z]) simp_all
  then have a: "allocate_semaphore 1 (Ptr (new_shm 0x8000000)) = Some (0, Ptr s1)"
    by simp
  have n1: "num_locks s1 = 0" by (simp add: s1_def n)
  have l: "\<not> (0 :: int) < uint (num_locks s1)" by (simp add: n1)
  have s: "bit (bitmap (locks s1 0)) 0" by (simp add: s1_def bit_or_iff)
  have ls: "lock_semaphore 1 (Ptr s1) 0 = Some (- EINVAL, Ptr s1)"
    by (simp add: lock_semaphore_def n1)
  have tl: "try_lock 1 (Ptr s1) 0 = Some (- EINVAL, Ptr s1)"
    by (simp add: try_lock_def n1)
  have d: "deallocate_semaphore 1 (Ptr s1) 0 = Some (- EINVAL, Ptr s1)"
    by (simp add: deallocate_semaphore_def n1)
  have ag: "allocate_given_semaphore 1 (Ptr (new_shm 0x8000000)) 0
       = Some (- EINVAL, Ptr (new_shm 0x8000000))"
    by (simp add: allocate_given_semaphore_def n)
  have e: "\<exists>s1. allocate_semaphore 1 (Ptr (new_shm 0x8000000)) = Some (0, Ptr s1)
          \<and> num_locks s1 = 0
          \<and> \<not> (0 :: int) < uint (num_locks s1)
          \<and> bit (bitmap (locks s1 0)) 0
          \<and> lock_semaphore 1 (Ptr s1) 0 = Some (- EINVAL, Ptr s1)
          \<and> try_lock 1 (Ptr s1) 0 = Some (- EINVAL, Ptr s1)
          \<and> deallocate_semaphore 1 (Ptr s1) 0 = Some (- EINVAL, Ptr s1)"
    by (rule exI [of _ s1]) (intro conjI a n1 l s ls tl d)
  from c b n e ag show ?thesis by (intro conjI)
qed

section \<open>Counting the free slots\<close>

lemma digit_sum_0 [simp]: "digit_sum 0 = 0"
  by (simp add: digit_sum.simps)

lemma digit_sum_double [simp]: "digit_sum (2 * n) = digit_sum n"
  by (subst digit_sum.simps) simp

lemma digit_sum_double_Suc [simp]: "digit_sum (Suc (2 * n)) = Suc (digit_sum n)"
  by (subst digit_sum.simps) simp

lemma digit_sum_bits:
  "n < 2 ^ m \<Longrightarrow> length (filter (bit n) [0..<m]) = digit_sum n"
proof (induction m arbitrary: n)
  case 0
  then show ?case by simp
next
  case (Suc m)
  then have h: "n div 2 < 2 ^ m" by simp
  have "[0..<Suc m] = 0 # map Suc [0..<m]"
    by (simp add: upt_conv_Cons map_Suc_upt del: upt_Suc)
  then have "length (filter (bit n) [0..<Suc m])
      = (if odd n then 1 else 0) + length (filter (bit (n div 2)) [0..<m])"
    by (simp add: filter_map comp_def bit_Suc bit_0 del: upt_Suc)
  also have "\<dots> = n mod 2 + digit_sum (n div 2)"
    using Suc.IH [OF h] by (simp add: mod_2_eq_odd)
  also have "\<dots> = digit_sum n"
    by (subst (2) digit_sum.simps) simp
  finally show ?case .
qed

lemma popcount_digit_sum: "popcount w = digit_sum (unat w)"
proof -
  have "filter (bit w) [0..<32] = filter (bit (unat w)) [0..<32]"
    by (rule filter_cong) (simp_all add: bit_unsigned_iff)
  moreover have "unat w < 2 ^ 32"
    using unsigned_less [of w] by simp
  ultimately show ?thesis
    by (simp add: popcount_def digit_sum_bits)
qed

lemma kernighan_step_nat:
  "0 < n \<Longrightarrow> Suc (digit_sum (n AND (n - 1))) = digit_sum n"
proof (induction n rule: less_induct)
  case (less n)
  show ?case
  proof (cases "even n")
    case True
    then obtain k where k: "n = 2 * k" by (auto elim: evenE)
    with less.prems have k0: "0 < k" by simp
    then have "n - 1 = Suc (2 * (k - 1))" using k by simp
    then have "n AND (n - 1) = 2 * (k AND (k - 1))"
      using k by (simp add: and_nat_unfold [of "2 * k"])
    moreover have "Suc (digit_sum (k AND (k - 1))) = digit_sum k"
      using k k0 by (intro less.IH) simp_all
    ultimately show ?thesis using k by simp
  next
    case False
    then obtain k where k: "n = Suc (2 * k)" by (auto elim: oddE)
    then have "n AND (n - 1) = 2 * k"
      by (simp add: and_nat_unfold [of "Suc (2 * k)"])
    with k show ?thesis by simp
  qed
qed

lemma kernighan_step:
  assumes "(w :: bitmap_t) \<noteq> 0"
  shows "Suc (popcount (w AND (w - 1))) = popcount w"
proof -
  from assms have pos: "0 < unat w" by (simp add: unat_gt_0)
  from assms have "unat (w AND (w - 1)) = unat w AND (unat w - 1)"
    by (simp add: unsigned_and_eq unat_minus_one)
  with kernighan_step_nat [OF pos] show ?thesis
    by (simp add: popcount_digit_sum)
qed

lemma popcount_0 [simp]: "popcount 0 = 0"
  by (simp add: popcount_digit_sum)

lemma available_locks_count_eq:
  "available_locks_count w count = count + int (popcount w)"
proof (induction w count rule: available_locks_count.induct)
  case (1 test_map count)
  show ?case
  proof (cases "test_map = 0")
    case True
    then show ?thesis by (subst available_locks_count.simps) simp
  next
    case False
    with 1 have "available_locks_count test_map count
        = count + 1 + int (popcount (test_map AND (test_map - 1)))"
      by (subst available_locks_count.simps) simp
    also have "\<dots> = count + int (popcount test_map)"
      using kernighan_step [OF False] by linarith
    finally show ?thesis .
  qed
qed

lemma popcount_le: "popcount w \<le> 32"
  using length_filter_le [of "bit w" "[0..<32]"] by (simp add: popcount_def)

lemma available_locks_groups_eq:
  "i \<le> unat (num_bitmaps s) \<Longrightarrow>
     available_locks_groups s i free_locks =
       free_locks + int (\<Sum>g = i..<unat (num_bitmaps s). 32 - popcount (bitmap (locks s g)))"
proof (induction "unat (num_bitmaps s) - i" arbitrary: i free_locks)
  case 0
  then show ?case by (subst available_locks_groups.simps) simp
next
  case (Suc d)
  then have lt: "i < unat (num_bitmaps s)" by simp
  have step: "available_locks_groups s i free_locks =
      available_locks_groups s (Suc i)
        (free_locks + int (32 - popcount (bitmap (locks s i))))"
    using lt popcount_le [of "bitmap (locks s i)"]
    by (subst available_locks_groups.simps)
       (simp add: BITMAP_SIZE_def available_locks_count_eq of_nat_diff)
  have "available_locks_groups s (Suc i) (free_locks + int (32 - popcount (bitmap (locks s i))))
      = free_locks + int (32 - popcount (bitmap (locks s i)))
        + int (\<Sum>g = Suc i..<unat (num_bitmaps s). 32 - popcount (bitmap (locks s g)))"
    using Suc.hyps(2) lt by (intro Suc.hyps(1)) simp_all
  with step lt show ?case
    by (simp add: sum.atLeast_Suc_lessThan)
qed

lemma available_locks_groups_segment_lock [simp]:
  "available_locks_groups (s\<lparr>segment_lock := m\<rparr>) i free_locks
     = available_locks_groups s i free_locks"
proof (cases "i \<le> unat (num_bitmaps s)")
  case True
  then show ?thesis by (simp add: available_locks_groups_eq)
next
  case False
  then show ?thesis
    by (subst available_locks_groups.simps, subst (2) available_locks_groups.simps) simp
qed

lemma available_locks_taken:
  assumes t: "take_mutex self (segment_lock s) False = Some (0, m1)"
  shows "available_locks self (Ptr s) =
           Some (int (available_count_spec s), Ptr (s\<lparr>segment_lock := m1\<lparr>mstate := Unlocked\<rparr>\<rparr>))"
  using t release_after_take [OF t]
  by (simp add: available_locks_def available_locks_groups_eq available_count_spec_def
        atLeast0LessThan)

lemma take_after_release:
  assumes "take_mutex self m b = Some (0, m1)"
  shows "take_mutex self' (m1\<lparr>mstate := Unlocked\<rparr>) False = Some (0, m1\<lparr>mstate := Locked self'\<rparr>)"
proof -
  from take_mutex_0_holds [OF assms] have "eagain_pending m1 = 0" by simp
  then have "m1\<lparr>eagain_pending := 0\<rparr> = m1" by (rule eagain_update_idem)
  then have "m1\<lparr>mstate := Unlocked, eagain_pending := 0, mstate := Locked self'\<rparr>
      = m1\<lparr>mstate := Locked self'\<rparr>"
    by (cases m1) simp
  then show ?thesis by (simp add: take_mutex_eq)
qed

lemma available_count_spec_frame [simp]:
  "available_count_spec (s\<lparr>segment_lock := m\<rparr>) = available_count_spec s"
  by (simp add: available_count_spec_def)

lemma store_bitmap_twice [simp]:
  "store_bitmap (store_bitmap s g v) g v' = store_bitmap s g v'"
  by (simp add: store_bitmap_def)

lemma store_bitmap_same [simp]:
  "store_bitmap s g (bitmap (locks s g)) = s"
  by (simp add: store_bitmap_def)

lemma unset_after_set:
  "\<not> bit (bm :: bitmap_t) p \<Longrightarrow> unset_bit p (bm OR push_bit p 1) = bm"
  by (subst bit_eq_iff) (auto simp: bit_unset_bit_iff bit_or_iff bit_exp_iff)

lemma popcount_card: "popcount w = card {n. n < 32 \<and> bit w n}"
proof -
  have "{x. bit w x} \<inter> set [0..<32] = {n. n < 32 \<and> bit w n}" by auto
  then show ?thesis
    by (simp add: popcount_def distinct_length_filter del: upt_Suc)
qed

lemma popcount_set_bit:
  assumes "p < 32" and "\<not> bit (bm :: bitmap_t) p"
  shows "popcount (bm OR push_bit p 1) = Suc (popcount bm)"
proof -
  have "{n. n < 32 \<and> bit (bm OR push_bit p 1) n} = insert p {n. n < 32 \<and> bit bm n}"
    using assms(1) by (auto simp: bit_or_iff bit_exp_iff)
  moreover have "p \<notin> {n. n < 32 \<and> bit bm n}" using assms(2) by simp
  moreover have "finite {n. n < 32 \<and> bit bm n}" by simp
  ultimately show ?thesis by (simp add: popcount_card)
qed

lemma available_count_spec_allocated:
  assumes g: "g < unat (num_bitmaps s)" and p: "p < 32" and c: "\<not> bit (bitmap (locks s g)) p"
  shows "Suc (available_count_spec (store_bitmap s g (bitmap (locks s g) OR push_bit p 1)))
           = available_count_spec s"
proof -
  let ?n = "unat (num_bitmaps s)"
  let ?f = "\<lambda>k. 32 - popcount (bitmap (locks s k))"
  let ?f' = "\<lambda>k. 32 - popcount (bitmap (locks (store_bitmap s g (bitmap (locks s g) OR push_bit p 1)) k))"
  have fin: "finite {..<?n}" by simp
  from g have mem: "g \<in> {..<?n}" by simp
  have rest: "sum ?f' ({..<?n} - {g}) = sum ?f ({..<?n} - {g})"
    by (rule sum.cong) simp_all
  have "popcount (bitmap (locks s g) OR push_bit p 1) \<le> 32" by (rule popcount_le)
  then have at: "Suc (?f' g) = ?f g"
    using popcount_set_bit [OF p c] by (simp del: push_bit_of_1)
  have "available_count_spec s = ?f g + sum ?f ({..<?n} - {g})"
    unfolding available_count_spec_def by (rule sum.remove [OF fin mem])
  moreover have "available_count_spec (store_bitmap s g (bitmap (locks s g) OR push_bit p 1))
      = ?f' g + sum ?f' ({..<?n} - {g})"
    unfolding available_count_spec_def
    using sum.remove [OF fin mem, of ?f'] by simp
  ultimately show ?thesis using rest at by linarith
qed

text \<open>
  Claim C9. On a segment whose groups cover its \<^verbatim>\<open>num_locks\<close>, with the allocation
  lock free to take and at least one free slot (an index below \<^verbatim>\<open>num_locks\<close> whose
  allocation bit is clear), four calls in a row: \<^verbatim>\<open>available_locks\<close> returns the sum
  over the groups of 32 minus the number of set bits of the bitmap;
  \<^verbatim>\<open>allocate_semaphore\<close> returns an index below \<^verbatim>\<open>num_locks\<close>, after which the count is
  one less; \<^verbatim>\<open>deallocate_semaphore\<close> of that index returns 0 and leaves the segment
  exactly as it was before the allocation; \<^verbatim>\<open>available_locks\<close> returns the first
  count again.
\<close>

theorem allocate_free_restores_count:
  assumes t: "take_mutex self (segment_lock s) False = Some (0, m1)"
    and cover: "groups_cover_locks s"
    and free: "\<exists>i. i < num_locks s \<and> \<not> bit (bitmap (locks s (unat i div 32))) (unat i mod 32)"
    and s0: "s0 = s\<lparr>segment_lock := m1\<lparr>mstate := Unlocked\<rparr>\<rparr>"
  shows "\<exists>r s1.
           available_locks self (Ptr s) = Some (int (available_count_spec s), Ptr s0)
         \<and> allocate_semaphore self (Ptr s0) = Some (r, Ptr s1)
         \<and> 0 \<le> r \<and> r < uint (num_locks s)
         \<and> available_locks self (Ptr s1) = Some (int (available_count_spec s) - 1, Ptr s1)
         \<and> deallocate_semaphore self (Ptr s1) (word_of_int r) = Some (0, Ptr s0)
         \<and> available_locks self (Ptr s0) = Some (int (available_count_spec s), Ptr s0)"
proof -
  define m2 where "m2 = m1\<lparr>mstate := Locked self\<rparr>"
  have m2u: "m2\<lparr>mstate := Unlocked\<rparr> = m1\<lparr>mstate := Unlocked\<rparr>"
    by (simp add: m2_def)
  have t0: "take_mutex self (segment_lock s0) False = Some (0, m2)"
    unfolding m2_def s0 using take_after_release [OF t] by simp
  have idle: "s0\<lparr>segment_lock := m2\<lparr>mstate := Unlocked\<rparr>\<rparr> = s0"
    unfolding m2u s0 by simp
  have cover0: "groups_cover_locks s0"
    using cover by (simp add: s0 groups_cover_locks_def)
  have spec0: "available_count_spec s0 = available_count_spec s"
    by (simp add: s0)
  \<comment> \<open>the first count\<close>
  have a1: "available_locks self (Ptr s) = Some (int (available_count_spec s), Ptr s0)"
    unfolding s0 by (rule available_locks_taken [OF t])
  have a3: "available_locks self (Ptr s0) = Some (int (available_count_spec s), Ptr s0)"
    using available_locks_taken [OF t0] by (simp only: idle spec0)
  \<comment> \<open>the allocation\<close>
  from free obtain i0 where i0: "i0 < num_locks s"
    and c0: "\<not> bit (bitmap (locks s (unat i0 div 32))) (unat i0 mod 32)"
    by blast
  define g0 where "g0 = unat i0 div 32"
  define p0 where "p0 = unat i0 mod 32"
  have g0: "g0 < unat (num_bitmaps s0)"
    unfolding g0_def using group_in_range [OF cover i0] by (simp add: s0)
  have c0': "\<not> bit (bitmap (locks s0 g0)) p0"
    using c0 by (simp add: s0 g0_def p0_def)
  have p0: "p0 < 32" by (simp add: p0_def)
  from c0' p0 have nf0: "bitmap (locks s0 g0) \<noteq> 0xFFFFFFFF"
    unfolding bitmap_not_full by blast
  with g0 have "\<not> (\<forall>k<unat (num_bitmaps s0). bitmap (locks s0 k) = 0xFFFFFFFF)"
    by blast
  from first_free_exists [OF this] obtain g p where
    g: "g < unat (num_bitmaps s0)" and full: "\<forall>k<g. bitmap (locks s0 k) = 0xFFFFFFFF"
    and p: "p < 32" and c: "\<not> bit (bitmap (locks s0 g)) p"
    and low: "\<forall>k<p. bit (bitmap (locks s0 g)) k"
    by blast
  define bm where "bm = bitmap (locks s0 g)"
  define s1 where "s1 = store_bitmap s0 g (bm OR push_bit p 1)"
  have "(store_bitmap s0 g (bm OR push_bit p 1))\<lparr>segment_lock := m2\<lparr>mstate := Unlocked\<rparr>\<rparr> = s1"
    unfolding m2u s1_def s0 by (simp add: store_bitmap_def)
  with allocate_semaphore_found [OF t0 g full p c low]
  have al: "allocate_semaphore self (Ptr s0) = Some (int (32 * g + p), Ptr s1)"
    by (simp only: bm_def)
  have lowest: "32 * g + p \<le> unat i0"
  proof -
    have i0': "unat i0 = 32 * g0 + p0" by (simp add: g0_def p0_def)
    from full nf0 have "\<not> g0 < g" by blast
    then consider "g = g0" | "g < g0" by linarith
    then show ?thesis
    proof cases
      case 1
      with low c0' have "\<not> p0 < p" by blast
      with 1 i0' show ?thesis by simp
    next
      case 2
      with p i0' show ?thesis by simp
    qed
  qed
  from i0 have "unat i0 < unat (num_locks s)" by (simp add: word_less_nat_alt)
  with lowest have bound: "32 * g + p < unat (num_locks s)" by simp
  then have "int (32 * g + p) < int (unat (num_locks s))"
    by (simp only: of_nat_less_iff)
  then have r2: "int (32 * g + p) < uint (num_locks s)" by (simp only: uint_nat)
  \<comment> \<open>the count in between\<close>
  have t1: "take_mutex self (segment_lock s1) False = Some (0, m2)"
    using t0 by (simp add: s1_def)
  have idle1: "s1\<lparr>segment_lock := m2\<lparr>mstate := Unlocked\<rparr>\<rparr> = s1"
    unfolding m2u s1_def s0 by (simp add: store_bitmap_def)
  have "Suc (available_count_spec s1) = available_count_spec s0"
    unfolding s1_def bm_def by (rule available_count_spec_allocated [OF g p c])
  then have "int (available_count_spec s1) = int (available_count_spec s) - 1"
    unfolding spec0 by linarith
  with available_locks_taken [OF t1]
  have a2: "available_locks self (Ptr s1) = Some (int (available_count_spec s) - 1, Ptr s1)"
    by (simp only: idle1)
  \<comment> \<open>the free\<close>
  define i :: "32 word" where "i = word_of_int (int (32 * g + p))"
  have "unat (num_locks s) < 2 ^ 32" using unsigned_less [of "num_locks s"] by simp
  with bound have small: "32 * g + p < 2 ^ LENGTH(32)" by simp
  have "i = (of_nat (32 * g + p) :: 32 word)"
    unfolding i_def by (simp only: of_int_of_nat_eq)
  then have "unat i = (32 * g + p) mod 2 ^ LENGTH(32)"
    by (simp only: unat_of_nat)
  with small have ui: "unat i = 32 * g + p"
    by (simp only: mod_less)
  have dm: "unat i div 32 = g" "unat i mod 32 = p" using p by (simp_all add: ui)
  have v: "i < num_locks s1"
    using bound by (simp add: word_less_nat_alt ui s1_def s0)
  have cover1: "groups_cover_locks s1" using cover0 by (simp add: s1_def)
  have set: "bit (bitmap (locks s1 g)) p"
    using p by (simp add: s1_def bit_or_iff bit_exp_iff)
  have restored: "(store_bitmap s1 g (unset_bit p (bitmap (locks s1 g))))
      \<lparr>segment_lock := m2\<lparr>mstate := Unlocked\<rparr>\<rparr> = s0"
  proof -
    from c have "unset_bit p (bm OR push_bit p 1) = bm"
      unfolding bm_def by (rule unset_after_set)
    then have "store_bitmap s1 g (unset_bit p (bitmap (locks s1 g))) = s0"
      by (simp add: s1_def bm_def del: push_bit_of_1)
    then show ?thesis by (simp only: idle)
  qed
  from deallocate_semaphore_set [OF t1 cover1 v dm(1) [symmetric] dm(2) [symmetric] set]
  have de: "deallocate_semaphore self (Ptr s1) i = Some (0, Ptr s0)"
    by (simp only: restored)
  have r1: "0 \<le> int (32 * g + p)" by simp
  show ?thesis
    by (rule exI [of _ "int (32 * g + p)"], rule exI [of _ s1])
       (intro conjI a1 al r1 r2 a2 de [unfolded i_def] a3)
qed

lemma count_example: "available_count_spec (store_bitmap (new_shm 2) 0 0xFFFFFFFF) = 32"
  by code_simp

theorem allocate_free_restores_count_witness:
  "take_mutex 1 (segment_lock (store_bitmap (new_shm 2) 0 0xFFFFFFFF)) False
     = Some (0, \<lparr>mstate = Locked 1, eagain_pending = 0, consistent_fails = False\<rparr>)
   \<and> groups_cover_locks (store_bitmap (new_shm 2) 0 0xFFFFFFFF)
   \<and> (40 :: 32 word) < num_locks (store_bitmap (new_shm 2) 0 0xFFFFFFFF)
   \<and> \<not> bit (bitmap (locks (store_bitmap (new_shm 2) 0 0xFFFFFFFF) 1)) 8
   \<and> available_count_spec (store_bitmap (new_shm 2) 0 0xFFFFFFFF) = 32
   \<and> (\<exists>r s1.
           available_locks 1 (Ptr (store_bitmap (new_shm 2) 0 0xFFFFFFFF))
             = Some (32, Ptr (store_bitmap (new_shm 2) 0 0xFFFFFFFF))
         \<and> allocate_semaphore 1 (Ptr (store_bitmap (new_shm 2) 0 0xFFFFFFFF)) = Some (r, Ptr s1)
         \<and> available_locks 1 (Ptr s1) = Some (31, Ptr s1)
         \<and> deallocate_semaphore 1 (Ptr s1) (word_of_int r)
             = Some (0, Ptr (store_bitmap (new_shm 2) 0 0xFFFFFFFF))
         \<and> available_locks 1 (Ptr (store_bitmap (new_shm 2) 0 0xFFFFFFFF))
             = Some (32, Ptr (store_bitmap (new_shm 2) 0 0xFFFFFFFF)))"
proof -
  define S where "S = store_bitmap (new_shm 2) 0 0xFFFFFFFF"
  define m1 where "m1 = \<lparr>mstate = Locked 1, eagain_pending = 0, consistent_fails = False\<rparr>"
  have t: "take_mutex 1 (segment_lock S) False = Some (0, m1)"
    by (simp add: S_def m1_def new_shm_def take_mutex_eq pthread_mutex_init_def)
  have inv: "groups_cover_locks S" by (simp add: S_def new_shm_cover)
  have v: "(40 :: 32 word) < num_locks S"
    by (simp add: S_def new_shm_def bitmaps_times_size_def BITMAP_SIZE_def)
  have c: "\<not> bit (bitmap (locks S 1)) 8"
    by (simp add: S_def new_shm_def zero_shm_def)
  have dm: "unat (40 :: 32 word) div 32 = 1" "unat (40 :: 32 word) mod 32 = 8" by simp_all
  from v c have "(40 :: 32 word) < num_locks S
      \<and> \<not> bit (bitmap (locks S (unat (40 :: 32 word) div 32))) (unat (40 :: 32 word) mod 32)"
    unfolding dm by (rule conjI)
  then have free: "\<exists>i. i < num_locks S
      \<and> \<not> bit (bitmap (locks S (unat i div 32))) (unat i mod 32)"
    by (rule exI)
  have s0: "S = S\<lparr>segment_lock := m1\<lparr>mstate := Unlocked\<rparr>\<rparr>"
    by (simp add: S_def m1_def new_shm_def store_bitmap_def pthread_mutex_init_def)
  have n: "available_count_spec S = 32" unfolding S_def by (rule count_example)
  from allocate_free_restores_count [OF t inv free s0]
  obtain r s1 where "available_locks 1 (Ptr S) = Some (int (available_count_spec S), Ptr S)"
    and "allocate_semaphore 1 (Ptr S) = Some (r, Ptr s1)"
    and "available_locks 1 (Ptr s1) = Some (int (available_count_spec S) - 1, Ptr s1)"
    and "deallocate_semaphore 1 (Ptr s1) (word_of_int r) = Some (0, Ptr S)"
    by blast
  then have "\<exists>r s1. available_locks 1 (Ptr S) = Some (32, Ptr S)
         \<and> allocate_semaphore 1 (Ptr S) = Some (r, Ptr s1)
         \<and> available_locks 1 (Ptr s1) = Some (31, Ptr s1)
         \<and> deallocate_semaphore 1 (Ptr s1) (word_of_int r) = Some (0, Ptr S)
         \<and> available_locks 1 (Ptr S) = Some (32, Ptr S)"
    unfolding n by auto
  with t inv v c n show ?thesis unfolding S_def m1_def by (intro conjI)
qed

end
